theory Spec2Isabelle
  imports Main
begin

section \<open>Book of Abstracts generator: model of generate_book_of_abstracts.py\<close>

text \<open>
  The script reads a spreadsheet of conference submissions, keeps the rows whose decision
  is \<open>Oral Presentation\<close>, and builds a word-processing document: a title page, a
  table of contents with one row per submission, and one abstract card per submission,
  linked to each other by bookmarks and internal hyperlinks.

  The model below follows the source function by function. Python strings are lists of
  Unicode code points (\<open>nat\<close>), so that the whitespace class of \<open>re\<close> and
  \<open>str.strip\<close> and the non-ASCII characters of the script's literals are represented
  as they are. Exceptions are values of a sum type. The document is the element tree that
  python-docx builds: paragraphs, runs, hyperlinks, bookmark markers, tables, rows and
  cells. Presentation properties (fonts, colours, widths, margins, borders, shading,
  alignment, paragraph spacing) are left out of the tree; none of them influences the
  structure, the text or the anchors.
\<close>

subsection \<open>Strings\<close>

type_synonym pystr = "nat list"

definition ascii :: "string \<Rightarrow> pystr" where
  "ascii s = map of_char s"

text \<open>
  Whitespace as Python sees it: the whitespace class of a \<open>str\<close> pattern and
  \<open>str.strip()\<close> both use the interpreter's Unicode whitespace test.
\<close>

definition is_space :: "nat \<Rightarrow> bool" where
  "is_space c \<longleftrightarrow>
     (9 \<le> c \<and> c \<le> 13) \<or> (28 \<le> c \<and> c \<le> 32) \<or> c = 133 \<or> c = 160 \<or> c = 5760 \<or>
     (8192 \<le> c \<and> c \<le> 8202) \<or> c = 8232 \<or> c = 8233 \<or> c = 8239 \<or> c = 8287 \<or> c = 12288"

text \<open>
  The call of \<open>re.sub\<close> in \<open>clean_text\<close>: scanning from the left, every maximal
  run of whitespace is replaced by one space (code point 32).
\<close>

function re_sub_ws :: "pystr \<Rightarrow> pystr" where
  "re_sub_ws [] = []"
| "re_sub_ws (c # cs) =
     (if is_space c then 32 # re_sub_ws (dropWhile is_space cs) else c # re_sub_ws cs)"
  by pat_completeness auto
termination
  by (relation "measure length") (auto simp: less_Suc_eq_le length_dropWhile_le)

definition strip :: "pystr \<Rightarrow> pystr" where
  "strip s = rev (dropWhile is_space (rev (dropWhile is_space s)))"

text \<open>
  A spreadsheet cell as pandas hands it over: a missing value, a string, an integer, or
  any other non-null scalar (a float, a timestamp, a boolean), which the script only ever
  turns into text; \<open>POther\<close> carries that text. \<open>py_str\<close> is \<open>str()\<close>, which is also
  what an f-string placeholder produces.
\<close>

fun digits :: "nat \<Rightarrow> pystr" where
  "digits n = (if n < 10 then [48 + n] else digits (n div 10) @ [48 + n mod 10])"

declare digits.simps [simp del]

datatype pyval = PNaN | PStr pystr | PInt int | POther pystr

fun isna :: "pyval \<Rightarrow> bool" where
  "isna PNaN = True"
| "isna _ = False"

fun py_str :: "pyval \<Rightarrow> pystr" where
  "py_str PNaN = ascii ''nan''"
| "py_str (PStr s) = s"
| "py_str (PInt i) = (if i < 0 then 45 # digits (nat (- i)) else digits (nat i))"
| "py_str (POther s) = s"

definition clean_text :: "pyval \<Rightarrow> pystr" where
  "clean_text text = (if isna text then [] else strip (re_sub_ws (py_str text)))"

text \<open>
  The reading of "collapse runs of whitespace to single spaces and trim the ends" that
  \<open>clean_text\<close> is compared with: the words of the text (its maximal runs of
  non-whitespace characters), joined by single spaces. \<open>collapsed\<close> says that every
  whitespace character is a plain space and has no whitespace neighbour to its right.
\<close>

function tokens :: "pystr \<Rightarrow> pystr list" where
  "tokens [] = []"
| "tokens (c # cs) =
     (if is_space c then tokens cs
      else (c # takeWhile (\<lambda>x. \<not> is_space x) cs) # tokens (dropWhile (\<lambda>x. \<not> is_space x) cs))"
  by pat_completeness auto
termination
  by (relation "measure length") (auto simp: less_Suc_eq_le length_dropWhile_le)

fun join_space :: "pystr list \<Rightarrow> pystr" where
  "join_space [] = []"
| "join_space [w] = w"
| "join_space (w # v # ws) = w @ 32 # join_space (v # ws)"

fun collapsed :: "pystr \<Rightarrow> bool" where
  "collapsed [] = True"
| "collapsed (c # cs) =
     ((\<not> is_space c \<or> (c = 32 \<and> (cs = [] \<or> \<not> is_space (hd cs)))) \<and> collapsed cs)"

subsection \<open>Tabular input\<close>

text \<open>
  A data frame is its column labels, its rows (a row gives the cell under each label) and
  the dtype of its array of values, which is the common type of its columns: \<open>float64\<close>
  when every column is numeric and one of them is a float column, \<open>int64\<close> when every
  column is an integer column, \<open>object\<close> otherwise. A frame that holds a string, like
  every frame that \<open>main\<close> renders, is an \<open>object\<close> frame.

  \<open>DataFrame.iterrows\<close> yields each row as a series over the frame's labels, taken from
  the array of values: in a \<open>float64\<close> frame an integer cell is handed over as a float,
  whose text is the integer's followed by \<open>.0\<close>. This holds for an integer of
  magnitude at most \<open>2 ^ 53\<close>, which the float represents exactly and prints in
  positional notation; the text of a larger one is not described here, and the model
  stops with \<open>LargeFloat\<close>.

  \<open>row[key]\<close> raises \<open>KeyError\<close> for a label the series does not have, gives the cell
  for a label it has once, and gives a sub-series, not a cell, for a repeated label.
  \<open>clean_text\<close> applied to a sub-series raises \<open>ValueError\<close> at its test of
  \<open>pd.isna\<close>. An identifier that is a sub-series is formatted by pandas; that text is
  not described here, and the model stops with \<open>SeriesIdentifier\<close> where the source
  would first use it. \<open>pd.read_excel\<close> makes column labels unique, so this case does
  not arise in \<open>main\<close>.
\<close>

datatype dtype = Int64 | Float64 | Object

record dataframe =
  columns :: "pystr list"
  rows :: "(pystr \<Rightarrow> pyval) list"
  values_dtype :: dtype

type_synonym series = "pystr list \<times> (pystr \<Rightarrow> pyval)"

datatype error = KeyError pystr | ValueError | SeriesIdentifier | LargeFloat

datatype item = Cell pyval | SubSeries

definition ebind :: "error + 'a \<Rightarrow> ('a \<Rightarrow> error + 'b) \<Rightarrow> error + 'b" where
  "ebind m f = (case m of Inl e \<Rightarrow> Inl e | Inr x \<Rightarrow> f x)"

fun as_float :: "pyval \<Rightarrow> pyval" where
  "as_float (PInt n) = POther (py_str (PInt n) @ ascii ''.0'')"
| "as_float v = v"

fun float_known :: "pyval \<Rightarrow> bool" where
  "float_known (PInt n) = (\<bar>n\<bar> \<le> 2 ^ 53)"
| "float_known v = True"

definition iterrows :: "dataframe \<Rightarrow> error + series list" where
  "iterrows df =
     (if values_dtype df \<noteq> Float64 then Inr (map (\<lambda>r. (columns df, r)) (rows df))
      else if list_all (\<lambda>r. list_all (\<lambda>k. float_known (r k)) (columns df)) (rows df)
      then Inr (map (\<lambda>r. (columns df, \<lambda>k. as_float (r k))) (rows df))
      else Inl LargeFloat)"

fun getitem :: "series \<Rightarrow> pystr \<Rightarrow> error + item" where
  "getitem (idx, vals) key =
     (if key \<notin> set idx then Inl (KeyError key)
      else if count_list idx key = 1 then Inr (Cell (vals key))
      else Inr SubSeries)"

fun clean_item :: "item \<Rightarrow> error + pystr" where
  "clean_item (Cell v) = Inr (clean_text v)"
| "clean_item SubSeries = Inl ValueError"

fun str_item :: "item \<Rightarrow> error + pystr" where
  "str_item (Cell v) = Inr (py_str v)"
| "str_item SubSeries = Inl SeriesIdentifier"

subsection \<open>Document tree\<close>

text \<open>
  A run holds its text (as \<open>Run.text\<close> reports it), page breaks and the bookmark
  markers that \<open>add_bookmark\<close> inserts; a hyperlink holds its anchor and the content of
  its single run. A cell \<open>Tc span ps\<close> spans \<open>span\<close> grid columns and holds the
  paragraphs \<open>ps\<close>. A bookmark id is kept as the number whose decimal text the
  source stores.
\<close>

datatype run_item = Text pystr | PageBreak | BookmarkStart nat pystr | BookmarkEnd nat

datatype inline = Run "run_item list" | Hyperlink pystr "run_item list"

type_synonym par = "inline list"

datatype tc = Tc nat "par list"

type_synonym table = "tc list list"

datatype block = Paragraph par | Table table

type_synonym document = "block list"

text \<open>
  The element tree is an lxml tree. Storing a text or an attribute value that holds a
  character outside the XML character range (a control character other than tab, line
  feed and carriage return, a surrogate, U+FFFE or U+FFFF) raises \<open>ValueError\<close>.
\<close>

definition xml_char :: "nat \<Rightarrow> bool" where
  "xml_char c \<longleftrightarrow>
     c = 9 \<or> c = 10 \<or> c = 13 \<or> (32 \<le> c \<and> c \<le> 55295) \<or> (57344 \<le> c \<and> c \<le> 65533) \<or>
     (65536 \<le> c \<and> c \<le> 1114111)"

definition xml_safe :: "pystr \<Rightarrow> bool" where
  "xml_safe s = list_all xml_char s"

text \<open>
  \<open>Paragraph.add_run(text)\<close> adds a run and sets its text only when the text is
  non-empty. python-docx stores a line feed and a carriage return as a break, which
  \<open>Run.text\<close> reads back as a line feed (\<open>run_text\<close>).
  \<open>add_bookmark\<close> wraps the first run that is a direct child of the paragraph (a run
  inside a hyperlink is not one), or a new empty run appended to the paragraph
  (\<open>insert_bookmark\<close>), and stores the bookmark's name as an attribute.
  \<open>add_hyperlink\<close> stores the anchor as an attribute, then the text, and appends the
  hyperlink element to the paragraph.
\<close>

definition run_text :: "pystr \<Rightarrow> pystr" where
  "run_text text = map (\<lambda>c. if c = 13 then 10 else c) text"

definition add_run :: "pystr \<Rightarrow> error + inline" where
  "add_run text =
     (if text = [] then Inr (Run [])
      else if xml_safe text then Inr (Run [Text (run_text text)])
      else Inl ValueError)"

fun insert_bookmark :: "par \<Rightarrow> pystr \<Rightarrow> nat \<Rightarrow> par" where
  "insert_bookmark [] name bid = [Run [BookmarkStart bid name, BookmarkEnd bid]]"
| "insert_bookmark (Run items # rest) name bid =
     Run (BookmarkStart bid name # items @ [BookmarkEnd bid]) # rest"
| "insert_bookmark (Hyperlink a t # rest) name bid = Hyperlink a t # insert_bookmark rest name bid"

definition add_bookmark :: "par \<Rightarrow> pystr \<Rightarrow> nat \<Rightarrow> error + par" where
  "add_bookmark para name bid =
     (if xml_safe name then Inr (insert_bookmark para name bid) else Inl ValueError)"

definition add_hyperlink :: "par \<Rightarrow> pystr \<Rightarrow> pystr \<Rightarrow> error + par" where
  "add_hyperlink para text anchor =
     (if \<not> xml_safe anchor then Inl ValueError
      else if \<not> xml_safe text then Inl ValueError
      else Inr (para @ [Hyperlink anchor [Text text]]))"

text \<open>
  The counter \<open>bid\<close> of \<open>create_book_of_abstracts\<close>: \<open>next_bid\<close> returns the
  incremented value and the new state.
\<close>

definition next_bid :: "nat \<Rightarrow> nat \<times> nat" where
  "next_bid bid = (bid + 1, bid + 1)"

definition page_break :: block where
  "page_break = Paragraph [Run [PageBreak]]"

definition centered :: "pystr \<Rightarrow> error + block" where
  "centered text = ebind (add_run text) (\<lambda>r. Inr (Paragraph [r]))"

definition title_page :: "pystr \<Rightarrow> error + block list" where
  "title_page track_title =
     ebind (centered (ascii ''IMRC 2025'')) (\<lambda>p1.
     ebind (centered (ascii ''India Management Research Conference'')) (\<lambda>p2.
     ebind (centered (ascii ''IIM Ahmedabad'')) (\<lambda>p3.
     ebind (centered (ascii ''December 5-7, 2025'')) (\<lambda>p4.
     ebind (centered (ascii ''Book of Abstracts'')) (\<lambda>p5.
     ebind (centered (ascii ''Track: '' @ track_title)) (\<lambda>p6.
       Inr (replicate 4 (Paragraph []) @
            [p1, Paragraph [], p2, Paragraph [], p3, p4] @
            replicate 3 (Paragraph []) @
            [p5, Paragraph [], p6, page_break])))))))"

text \<open>
  The header row of the contents table: a header containing a newline is split and its
  parts are added as runs with a newline run between them.
\<close>

fun split_on :: "nat \<Rightarrow> pystr \<Rightarrow> pystr list" where
  "split_on sep [] = [[]]"
| "split_on sep (c # cs) =
     (if c = sep then [] # split_on sep cs
      else (case split_on sep cs of [] \<Rightarrow> [[c]] | p # ps \<Rightarrow> (c # p) # ps))"

fun header_parts :: "pystr list \<Rightarrow> error + par" where
  "header_parts [] = Inr []"
| "header_parts [part] = ebind (add_run part) (\<lambda>r. Inr [r])"
| "header_parts (part # parts) =
     ebind (add_run part) (\<lambda>r.
     ebind (add_run [10]) (\<lambda>nl.
     ebind (header_parts parts) (\<lambda>rs. Inr (r # nl # rs))))"

definition header_cell :: "pystr \<Rightarrow> error + tc" where
  "header_cell hdr =
     ebind (if 10 \<in> set hdr then header_parts (split_on 10 hdr)
            else ebind (add_run hdr) (\<lambda>r. Inr [r]))
       (\<lambda>para. Inr (Tc 1 [para]))"

definition hdrs :: "pystr list" where
  "hdrs = [ascii ''Submission'' @ 10 # ascii ''ID'', ascii ''Title'', ascii ''Authors'']"

fun header_cells :: "pystr list \<Rightarrow> error + tc list" where
  "header_cells [] = Inr []"
| "header_cells (hdr # rest) =
     ebind (header_cell hdr) (\<lambda>c. ebind (header_cells rest) (\<lambda>cs. Inr (c # cs)))"

definition header_row :: "error + tc list" where
  "header_row = header_cells hdrs"

text \<open>
  One pass of the first loop: the contents row of a record. The first cell receives the
  hyperlink and then the bookmark, which lands in a new run because the paragraph has no
  direct run.
\<close>

definition toc_row :: "series \<Rightarrow> nat \<Rightarrow> error + (tc list \<times> nat)" where
  "toc_row row bid =
     ebind (getitem row (ascii ''Submission ID'')) (\<lambda>sub_id.
     ebind (ebind (getitem row (ascii ''Title'')) clean_item) (\<lambda>title.
     ebind (ebind (getitem row (ascii ''Authors'')) clean_item) (\<lambda>authors.
     ebind (str_item sub_id) (\<lambda>id_text.
     ebind (add_hyperlink [] id_text (ascii ''SUB_'' @ id_text)) (\<lambda>p0.
     ebind (add_bookmark p0 (ascii ''TOC_SUB_'' @ id_text) (fst (next_bid bid))) (\<lambda>p0.
     ebind (add_hyperlink [] title (ascii ''SUB_'' @ id_text)) (\<lambda>p1.
     ebind (add_hyperlink [] authors (ascii ''SUB_'' @ id_text)) (\<lambda>p2.
       Inr ([Tc 1 [p0], Tc 1 [p1], Tc 1 [p2]], snd (next_bid bid))))))))))"

fun toc_rows :: "series list \<Rightarrow> nat \<Rightarrow> error + (table \<times> nat)" where
  "toc_rows [] bid = Inr ([], bid)"
| "toc_rows (row # others) bid =
     ebind (toc_row row bid) (\<lambda>(dr, bid').
     ebind (toc_rows others bid') (\<lambda>(drs, bid'').
       Inr (dr # drs, bid'')))"

text \<open>
  One pass of the second loop: the card of a record (a table of four rows, the last three
  merged across both columns), the "back to contents" paragraph, and a spacer paragraph
  after every card but the last.
\<close>

definition back_text :: pystr where
  "back_text = 8593 # ascii '' Back to Contents''"

definition abstract_card ::
  "series \<Rightarrow> nat \<Rightarrow> nat \<Rightarrow> pystr \<Rightarrow> nat \<Rightarrow> error + (block list \<times> nat)" where
  "abstract_card row idx n track_title bid =
     ebind (getitem row (ascii ''Submission ID'')) (\<lambda>sub_id.
     ebind (ebind (getitem row (ascii ''Title'')) clean_item) (\<lambda>title.
     ebind (ebind (getitem row (ascii ''Authors'')) clean_item) (\<lambda>authors.
     ebind (ebind (getitem row (ascii ''Abstract'')) clean_item) (\<lambda>abstract.
     ebind (str_item sub_id) (\<lambda>id_text.
     ebind (add_run (ascii ''Submission ID: '' @ id_text)) (\<lambda>r1.
     ebind (add_bookmark [r1] (ascii ''SUB_'' @ id_text) (fst (next_bid bid))) (\<lambda>p1.
     ebind (add_run (ascii ''Track: '' @ track_title)) (\<lambda>r2.
     ebind (add_run title) (\<lambda>rt.
     ebind (add_run authors) (\<lambda>ra.
     ebind (add_run (ascii ''Abstract: '')) (\<lambda>rl.
     ebind (add_run abstract) (\<lambda>rb.
     ebind (add_hyperlink [] back_text (ascii ''TOC_SUB_'' @ id_text)) (\<lambda>np.
       Inr (Table [[Tc 1 [p1], Tc 1 [[r2]]], [Tc 2 [[rt]]], [Tc 2 [[ra]]], [Tc 2 [[rl, rb]]]] #
            Paragraph np #
            (if int idx < int n - 1 then [Paragraph [Run []]] else []),
            snd (next_bid bid)))))))))))))))"

fun abstracts ::
  "series list \<Rightarrow> nat \<Rightarrow> nat \<Rightarrow> pystr \<Rightarrow> nat \<Rightarrow> error + (block list \<times> nat)" where
  "abstracts [] idx n track_title bid = Inr ([], bid)"
| "abstracts (row # others) idx n track_title bid =
     ebind (abstract_card row idx n track_title bid) (\<lambda>(blocks, bid').
     ebind (abstracts others (idx + 1) n track_title bid') (\<lambda>(blocks', bid'').
       Inr (blocks @ blocks', bid'')))"

definition create_book_of_abstracts :: "dataframe \<Rightarrow> pystr \<Rightarrow> error + document" where
  "create_book_of_abstracts df_oral track_title =
     ebind (title_page track_title) (\<lambda>front.
     ebind (add_run (ascii ''Table of Contents'')) (\<lambda>r.
     ebind (add_bookmark [r] (ascii ''TOC'') (fst (next_bid 0))) (\<lambda>p.
     ebind header_row (\<lambda>hcells.
     ebind (iterrows df_oral) (\<lambda>series1.
     ebind (toc_rows series1 (snd (next_bid 0))) (\<lambda>(drs, bid2).
     ebind (iterrows df_oral) (\<lambda>series2.
     ebind (abstracts series2 0 (length (rows df_oral)) track_title bid2)
       (\<lambda>(cards, bid3).
         Inr (front @ [Paragraph p, Paragraph [], Table (hcells # drs), page_break] @
              cards)))))))))"

subsection \<open>Command-line entry point\<close>

text \<open>
  The file system is a parameter: \<open>read_excel\<close> gives what \<open>pd.read_excel\<close> does
  for a path, \<open>save\<close> what \<open>doc.save\<close> does. A printed line is the list of the pieces
  of its f-string: literal text and strings (\<open>S\<close>), a list of strings shown by its
  \<open>repr\<close> (\<open>Repr\<close>) and a length (\<open>Len\<close>). The outcome is what was printed, how the
  process ended and the file that was written, if any.
\<close>

datatype read_result = FileNotFoundError | ReadException pystr | Frame dataframe

datatype save_result = Saved | PermissionError | SaveException pystr

datatype piece = S pystr | Repr "pystr list" | Len nat

type_synonym line = "piece list"

datatype status = Returned | SysExit nat | Uncaught error | UncaughtSave pystr

record outcome =
  stdout :: "line list"
  status :: status
  saved :: "(pystr \<times> document) option"

text \<open>
  Lines 446 to 457 of \<open>main\<close>: the three defaults and the positional arguments that
  replace them.
\<close>

definition parse_args :: "pystr list \<Rightarrow> pystr \<times> pystr \<times> pystr" where
  "parse_args argv =
     (let input_file = ascii ''IMRC2025_submissions.xlsx'';
          output_file = ascii ''IMRC2025_Book_of_Abstracts.docx'';
          track_title = ascii ''FAE'';
          input_file = (if length argv \<ge> 2 then argv ! 1 else input_file);
          output_file = (if length argv \<ge> 3 then argv ! 2 else output_file);
          track_title = (if length argv \<ge> 4 then argv ! 3 else track_title)
      in (input_file, output_file, track_title))"

definition required_cols :: "pystr list" where
  "required_cols = [ascii ''Submission ID'', ascii ''Title'', ascii ''Authors'',
     ascii ''Abstract'', ascii ''Decision'']"

definition rule_line :: line where
  "rule_line = [S (replicate 60 61)]"

definition banner :: "pystr \<Rightarrow> pystr \<Rightarrow> pystr \<Rightarrow> line list" where
  "banner input_file output_file track_title =
     [rule_line,
      [S (ascii ''IMRC 2025 Book of Abstracts Generator'')],
      rule_line,
      [S (10 # ascii ''Input file:  ''), S input_file],
      [S (ascii ''Output file: ''), S output_file],
      [S (ascii ''Track:       ''), S track_title],
      [],
      [S (ascii ''Reading Excel file...'')]]"

definition success_lines :: "pystr \<Rightarrow> nat \<Rightarrow> line list" where
  "success_lines output_file n =
     [[S (10 # replicate 60 61)],
      [S (9989 # ascii '' SUCCESS!'')],
      rule_line,
      [S (10 # ascii ''Generated: ''), S output_file],
      [S (ascii ''Total abstracts: ''), Len n],
      [S (10 # ascii ''Document includes:'')],
      [S (ascii ''  '' @ 8226 # ascii '' Title page with IMRC 2025 branding'')],
      [S (ascii ''  '' @ 8226 # ascii '' Table of Contents with hyperlinks'')],
      [S (ascii ''  '' @ 8226 # ascii '' All abstracts with navigation links'')]]"

definition is_oral :: "(pystr \<Rightarrow> pyval) \<Rightarrow> bool" where
  "is_oral r \<longleftrightarrow> r (ascii ''Decision'') = PStr (ascii ''Oral Presentation'')"

definition main ::
  "pystr list \<Rightarrow> (pystr \<Rightarrow> read_result) \<Rightarrow> (pystr \<Rightarrow> document \<Rightarrow> save_result) \<Rightarrow> outcome" where
  "main argv read_excel save =
     (case parse_args argv of (input_file, output_file, track_title) \<Rightarrow>
       (let out = banner input_file output_file track_title in
        (case read_excel input_file of
           FileNotFoundError \<Rightarrow>
             \<lparr>stdout = out @ [[S (ascii ''ERROR: File not found: ''), S input_file]],
              status = SysExit 1, saved = None\<rparr>
         | ReadException e \<Rightarrow>
             \<lparr>stdout = out @ [[S (ascii ''ERROR: Could not read Excel file: ''), S e]],
              status = SysExit 1, saved = None\<rparr>
         | Frame df \<Rightarrow>
            (let missing_cols = filter (\<lambda>col. col \<notin> set (columns df)) required_cols in
             if missing_cols \<noteq> [] then
               \<lparr>stdout = out @
                  [[S (ascii ''ERROR: Missing required columns: ''), Repr missing_cols],
                   [S (ascii ''Available columns: ''), Repr (columns df)]],
                status = SysExit 1, saved = None\<rparr>
             else
              (let df_oral = df\<lparr>rows := filter is_oral (rows df)\<rparr>;
                   out = out @ [[S (ascii ''Found ''), Len (length (rows df_oral)),
                                 S (ascii '' Oral Presentations'')]]
               in
               if length (rows df_oral) = 0 then
                 \<lparr>stdout = out @
                    [[S (ascii ''ERROR: No oral presentations found in the data.'')]],
                  status = SysExit 1, saved = None\<rparr>
               else
                (let out = out @ [[S (10 # ascii ''Generating Book of Abstracts...'')]] in
                 (case create_book_of_abstracts df_oral track_title of
                    Inl e \<Rightarrow> \<lparr>stdout = out, status = Uncaught e, saved = None\<rparr>
                  | Inr doc \<Rightarrow>
                     (let out = out @
                            [[S (ascii ''Saving to ''), S output_file, S (ascii ''...'')]]
                      in
                      (case save output_file doc of
                         PermissionError \<Rightarrow>
                           \<lparr>stdout = out @
                              [[S (ascii ''ERROR: Cannot save file. Please close ''),
                                S output_file, S (ascii '' if it'' @ 39 # ascii ''s open.'')]],
                            status = SysExit 1, saved = None\<rparr>
                       | SaveException e \<Rightarrow>
                           \<lparr>stdout = out, status = UncaughtSave e, saved = None\<rparr>
                       | Saved \<Rightarrow>
                           \<lparr>stdout = out @
                              success_lines output_file (length (rows df_oral)),
                            status = Returned, saved = Some (output_file, doc)\<rparr>)))))))))"

subsection \<open>Reading a document back\<close>

text \<open>
  What a reader of the document sees: the bookmarks (id and name) in document order, the
  hyperlinks (anchor and text), the text of a cell, and the split of the body into
  sections, each a table with the paragraphs that follow it. The first section is the
  table of contents, whose rows after the header are the contents rows; the others are
  the abstract cards.
\<close>

fun item_bookmarks :: "run_item list \<Rightarrow> (nat \<times> pystr) list" where
  "item_bookmarks [] = []"
| "item_bookmarks (BookmarkStart bid name # items) = (bid, name) # item_bookmarks items"
| "item_bookmarks (_ # items) = item_bookmarks items"

fun item_text :: "run_item list \<Rightarrow> pystr" where
  "item_text [] = []"
| "item_text (Text t # items) = t @ item_text items"
| "item_text (_ # items) = item_text items"

fun inline_bookmarks :: "inline \<Rightarrow> (nat \<times> pystr) list" where
  "inline_bookmarks (Run items) = item_bookmarks items"
| "inline_bookmarks (Hyperlink a items) = item_bookmarks items"

fun inline_text :: "inline \<Rightarrow> pystr" where
  "inline_text (Run items) = item_text items"
| "inline_text (Hyperlink a items) = item_text items"

fun inline_links :: "inline \<Rightarrow> (pystr \<times> pystr) list" where
  "inline_links (Run items) = []"
| "inline_links (Hyperlink a items) = [(a, item_text items)]"

definition par_bookmarks :: "par \<Rightarrow> (nat \<times> pystr) list" where
  "par_bookmarks p = concat (map inline_bookmarks p)"

definition par_links :: "par \<Rightarrow> (pystr \<times> pystr) list" where
  "par_links p = concat (map inline_links p)"

definition par_text :: "par \<Rightarrow> pystr" where
  "par_text p = concat (map inline_text p)"

fun cell_pars :: "tc \<Rightarrow> par list" where
  "cell_pars (Tc span ps) = ps"

definition cell_bookmarks :: "tc \<Rightarrow> (nat \<times> pystr) list" where
  "cell_bookmarks c = concat (map par_bookmarks (cell_pars c))"

definition cell_links :: "tc \<Rightarrow> (pystr \<times> pystr) list" where
  "cell_links c = concat (map par_links (cell_pars c))"

definition cell_text :: "tc \<Rightarrow> pystr" where
  "cell_text c = concat (map par_text (cell_pars c))"

definition row_bookmarks :: "tc list \<Rightarrow> (nat \<times> pystr) list" where
  "row_bookmarks r = concat (map cell_bookmarks r)"

definition table_bookmarks :: "table \<Rightarrow> (nat \<times> pystr) list" where
  "table_bookmarks t = concat (map row_bookmarks t)"

fun block_bookmarks :: "block \<Rightarrow> (nat \<times> pystr) list" where
  "block_bookmarks (Paragraph p) = par_bookmarks p"
| "block_bookmarks (Table t) = table_bookmarks t"

fun block_links :: "block \<Rightarrow> (pystr \<times> pystr) list" where
  "block_links (Paragraph p) = par_links p"
| "block_links (Table t) = concat (map (\<lambda>r. concat (map cell_links r)) t)"

definition doc_bookmarks :: "document \<Rightarrow> (nat \<times> pystr) list" where
  "doc_bookmarks doc = concat (map block_bookmarks doc)"

fun sections :: "document \<Rightarrow> (table \<times> block list) list" where
  "sections [] = []"
| "sections (Table t # bs) =
     (t, takeWhile (\<lambda>b. case b of Table _ \<Rightarrow> False | Paragraph _ \<Rightarrow> True) bs) # sections bs"
| "sections (Paragraph p # bs) = sections bs"

definition contents_rows :: "document \<Rightarrow> table" where
  "contents_rows doc = (case sections doc of [] \<Rightarrow> [] | (t, _) # _ \<Rightarrow> tl t)"

definition cards :: "document \<Rightarrow> (table \<times> block list) list" where
  "cards doc = tl (sections doc)"

definition is_par :: "block \<Rightarrow> bool" where
  "is_par b = (case b of Table _ \<Rightarrow> False | Paragraph _ \<Rightarrow> True)"

definition reports_error :: "line list \<Rightarrow> bool" where
  "reports_error out =
     (\<exists>l\<in>set out. case l of S t # _ \<Rightarrow> take 6 t = ascii ''ERROR:'' | _ \<Rightarrow> False)"

subsection \<open>The document of a renderable frame\<close>

text \<open>
  What the renderer returns when nothing fails, written without the error plumbing.
  \<open>records\<close> are the rows as \<open>iterrows\<close> hands them over; \<open>has_cols\<close> holds when
  each of the four columns that the renderer reads is present once; \<open>sid\<close> is the text
  of a record's identifier; \<open>row_safe\<close> holds when the texts taken from a record can be
  stored in the tree. \<open>renderable\<close> collects the conditions under which every step of
  the renderer succeeds.
\<close>

definition records :: "dataframe \<Rightarrow> (pystr \<Rightarrow> pyval) list" where
  "records df =
     (if values_dtype df = Float64 then map (\<lambda>r k. as_float (r k)) (rows df) else rows df)"

definition floats_known :: "dataframe \<Rightarrow> bool" where
  "floats_known df \<longleftrightarrow>
     values_dtype df \<noteq> Float64 \<or>
     list_all (\<lambda>r. list_all (\<lambda>k. float_known (r k)) (columns df)) (rows df)"

definition has_cols :: "pystr list \<Rightarrow> bool" where
  "has_cols cols \<longleftrightarrow>
     count_list cols (ascii ''Submission ID'') = 1 \<and> count_list cols (ascii ''Title'') = 1 \<and>
     count_list cols (ascii ''Authors'') = 1 \<and> count_list cols (ascii ''Abstract'') = 1"

definition sid :: "(pystr \<Rightarrow> pyval) \<Rightarrow> pystr" where
  "sid r = py_str (r (ascii ''Submission ID''))"

definition row_safe :: "(pystr \<Rightarrow> pyval) \<Rightarrow> bool" where
  "row_safe r \<longleftrightarrow>
     xml_safe (sid r) \<and> xml_safe (clean_text (r (ascii ''Title''))) \<and>
     xml_safe (clean_text (r (ascii ''Authors''))) \<and>
     xml_safe (clean_text (r (ascii ''Abstract'')))"

definition renderable :: "dataframe \<Rightarrow> pystr \<Rightarrow> bool" where
  "renderable df track_title \<longleftrightarrow>
     xml_safe track_title \<and> floats_known df \<and>
     (rows df = [] \<or> (has_cols (columns df) \<and> list_all row_safe (records df)))"

definition run_of :: "pystr \<Rightarrow> inline" where
  "run_of text = (if text = [] then Run [] else Run [Text (run_text text)])"

definition title_blocks :: "pystr \<Rightarrow> block list" where
  "title_blocks track_title =
     replicate 4 (Paragraph []) @
     [Paragraph [run_of (ascii ''IMRC 2025'')],
      Paragraph [],
      Paragraph [run_of (ascii ''India Management Research Conference'')],
      Paragraph [],
      Paragraph [run_of (ascii ''IIM Ahmedabad'')],
      Paragraph [run_of (ascii ''December 5-7, 2025'')]] @
     replicate 3 (Paragraph []) @
     [Paragraph [run_of (ascii ''Book of Abstracts'')],
      Paragraph [],
      Paragraph [run_of (ascii ''Track: '' @ track_title)],
      page_break]"

definition heading :: block where
  "heading = Paragraph [Run [BookmarkStart 1 (ascii ''TOC''), Text (ascii ''Table of Contents''),
     BookmarkEnd 1]]"

definition header_tcs :: "tc list" where
  "header_tcs =
     [Tc 1 [[Run [Text (ascii ''Submission'')], Run [Text [10]], Run [Text (ascii ''ID'')]]],
      Tc 1 [[Run [Text (ascii ''Title'')]]],
      Tc 1 [[Run [Text (ascii ''Authors'')]]]]"

definition toc_cells :: "(pystr \<Rightarrow> pyval) \<Rightarrow> nat \<Rightarrow> tc list" where
  "toc_cells r b =
     [Tc 1 [[Hyperlink (ascii ''SUB_'' @ sid r) [Text (sid r)],
             Run [BookmarkStart b (ascii ''TOC_SUB_'' @ sid r), BookmarkEnd b]]],
      Tc 1 [[Hyperlink (ascii ''SUB_'' @ sid r) [Text (clean_text (r (ascii ''Title'')))]]],
      Tc 1 [[Hyperlink (ascii ''SUB_'' @ sid r) [Text (clean_text (r (ascii ''Authors'')))]]]]"

definition card_table :: "(pystr \<Rightarrow> pyval) \<Rightarrow> pystr \<Rightarrow> nat \<Rightarrow> table" where
  "card_table r track_title b =
     [[Tc 1 [[Run [BookmarkStart b (ascii ''SUB_'' @ sid r),
                   Text (run_text (ascii ''Submission ID: '' @ sid r)), BookmarkEnd b]]],
       Tc 1 [[run_of (ascii ''Track: '' @ track_title)]]],
      [Tc 2 [[run_of (clean_text (r (ascii ''Title'')))]]],
      [Tc 2 [[run_of (clean_text (r (ascii ''Authors'')))]]],
      [Tc 2 [[run_of (ascii ''Abstract: ''), run_of (clean_text (r (ascii ''Abstract'')))]]]]"

definition card_tail :: "(pystr \<Rightarrow> pyval) \<Rightarrow> nat \<Rightarrow> nat \<Rightarrow> block list" where
  "card_tail r idx n =
     Paragraph [Hyperlink (ascii ''TOC_SUB_'' @ sid r) [Text back_text]] #
     (if int idx < int n - 1 then [Paragraph [Run []]] else [])"

fun toc_pure :: "(pystr \<Rightarrow> pyval) list \<Rightarrow> nat \<Rightarrow> table" where
  "toc_pure [] b = []"
| "toc_pure (r # rs) b = toc_cells r (b + 1) # toc_pure rs (b + 1)"

fun cards_pure :: "(pystr \<Rightarrow> pyval) list \<Rightarrow> nat \<Rightarrow> nat \<Rightarrow> pystr \<Rightarrow> nat \<Rightarrow> block list" where
  "cards_pure [] idx n t b = []"
| "cards_pure (r # rs) idx n t b =
     Table (card_table r t (b + 1)) # card_tail r idx n @ cards_pure rs (idx + 1) n t (b + 1)"

definition book :: "(pystr \<Rightarrow> pyval) list \<Rightarrow> pystr \<Rightarrow> document" where
  "book rs t =
     title_blocks t @
     [heading, Paragraph [], Table (header_tcs # toc_pure rs 1), page_break] @
     cards_pure rs 0 (length rs) t (1 + length rs)"

text \<open>
  \<open>toc_ok\<close> is the part of these conditions that a contents row depends on.
\<close>

definition toc_ok :: "pystr list \<Rightarrow> (pystr \<Rightarrow> pyval) \<Rightarrow> bool" where
  "toc_ok cols r \<longleftrightarrow>
     count_list cols (ascii ''Submission ID'') = 1 \<and> count_list cols (ascii ''Title'') = 1 \<and>
     count_list cols (ascii ''Authors'') = 1 \<and> xml_safe (sid r) \<and>
     xml_safe (clean_text (r (ascii ''Title''))) \<and> xml_safe (clean_text (r (ascii ''Authors'')))"

subsection \<open>Sample inputs\<close>

definition mk_row :: "pyval \<Rightarrow> pyval \<Rightarrow> pyval \<Rightarrow> pyval \<Rightarrow> pyval \<Rightarrow> pystr \<Rightarrow> pyval" where
  "mk_row i t a b d =
     (\<lambda>k. if k = ascii ''Submission ID'' then i
          else if k = ascii ''Title'' then t
          else if k = ascii ''Authors'' then a
          else if k = ascii ''Abstract'' then b
          else if k = ascii ''Decision'' then d
          else PNaN)"

definition demo_rows :: "(pystr \<Rightarrow> pyval) list" where
  "demo_rows =
     [mk_row (PInt 7) (PStr (ascii ''A  title'')) (PStr (ascii ''X, Y'')) (PStr (ascii ''abs''))
        (PStr (ascii ''Oral Presentation'')),
      mk_row (PInt 8) (PStr (ascii ''B'')) PNaN (PStr (ascii ''text'')) (PStr (ascii ''Poster'')),
      mk_row (PInt 9) (PStr (ascii ''C'')) PNaN PNaN (PStr (ascii ''Oral Presentation''))]"

definition demo_frame :: dataframe where
  "demo_frame = \<lparr>columns = required_cols, rows = demo_rows, values_dtype = Object\<rparr>"

definition dup_frame :: dataframe where
  "dup_frame = \<lparr>columns = required_cols,
     rows = [mk_row (PInt 7) (PStr (ascii ''A'')) PNaN PNaN (PStr (ascii ''Oral Presentation'')),
             mk_row (PStr (ascii ''7'')) (PStr (ascii ''B'')) PNaN PNaN
               (PStr (ascii ''Oral Presentation''))],
     values_dtype = Object\<rparr>"

definition short_frame :: dataframe where
  "short_frame = \<lparr>columns = [ascii ''Title'', ascii ''Decision''], rows = [], values_dtype = Object\<rparr>"

definition poster_frame :: dataframe where
  "poster_frame = \<lparr>columns = required_cols, rows = [demo_rows ! 1], values_dtype = Object\<rparr>"

definition bad_dup_frame :: dataframe where
  "bad_dup_frame = \<lparr>columns = required_cols,
     rows = [mk_row (PInt 7) (PStr [97, 1, 98]) PNaN PNaN (PStr (ascii ''Oral Presentation'')),
             mk_row (PInt 7) (PStr (ascii ''B'')) PNaN PNaN
               (PStr (ascii ''Oral Presentation''))],
     values_dtype = Object\<rparr>"

definition numeric_frame :: dataframe where
  "numeric_frame = \<lparr>columns = [ascii ''Submission ID'', ascii ''Title'', ascii ''Authors'',
       ascii ''Abstract''],
     rows = [mk_row (PInt 7) PNaN PNaN PNaN PNaN], values_dtype = Float64\<rparr>"

section \<open>Whitespace normalization\<close>

lemma is_space_32 [simp]: "is_space 32"
  by (simp add: is_space_def)

lemma dropWhile_hd: "dropWhile P xs = [] \<or> \<not> P (hd (dropWhile P xs))"
  using hd_dropWhile by blast

lemma sub_hd: "xs = [] \<or> \<not> is_space (hd xs) \<Longrightarrow>
    re_sub_ws xs = [] \<or> \<not> is_space (hd (re_sub_ws xs))"
  by (cases xs) auto

lemma collapsed_sub: "collapsed (re_sub_ws s)"
proof (induction s rule: re_sub_ws.induct)
  case 1
  show ?case by simp
next
  case (2 c cs)
  show ?case
  proof (cases "is_space c")
    case True
    have "re_sub_ws (dropWhile is_space cs) = [] \<or>
          \<not> is_space (hd (re_sub_ws (dropWhile is_space cs)))"
      by (rule sub_hd) (rule dropWhile_hd)
    with True 2 show ?thesis by simp
  next
    case False
    with 2 show ?thesis by simp
  qed
qed

lemma sub_collapsed: "collapsed r \<Longrightarrow> re_sub_ws r = r"
proof (induction r rule: re_sub_ws.induct)
  case 1
  show ?case by simp
next
  case (2 c cs)
  show ?case
  proof (cases "is_space c")
    case True
    with 2(3) have c: "c = 32" and h: "cs = [] \<or> \<not> is_space (hd cs)" and cc: "collapsed cs"
      by auto
    from h have d: "dropWhile is_space cs = cs" by (cases cs) auto
    from 2(1) [OF True] cc d have "re_sub_ws cs = cs" by simp
    with True c d show ?thesis by simp
  next
    case False
    with 2 show ?thesis by simp
  qed
qed

lemma collapsed_append: "collapsed (a @ b) \<Longrightarrow> collapsed a \<and> collapsed b"
proof (induction a)
  case Nil
  then show ?case by simp
next
  case (Cons c a)
  then show ?case by (cases a) auto
qed

lemma rstrip_split: "rev (dropWhile P (rev y)) @ rev (takeWhile P (rev y)) = y"
proof -
  have "rev (takeWhile P (rev y) @ dropWhile P (rev y)) = y" by simp
  then show ?thesis by (simp only: rev_append)
qed

lemma collapsed_strip: "collapsed x \<Longrightarrow> collapsed (strip x)"
proof -
  assume c: "collapsed x"
  have "takeWhile is_space x @ dropWhile is_space x = x" by simp
  with c have d: "collapsed (dropWhile is_space x)"
    using collapsed_append [of "takeWhile is_space x" "dropWhile is_space x"] by simp
  then show ?thesis
    unfolding strip_def
    using collapsed_append [of "rev (dropWhile is_space (rev (dropWhile is_space x)))"
        "rev (takeWhile is_space (rev (dropWhile is_space x)))"]
    by (simp only: rstrip_split)
qed

lemma strip_ends:
  "strip x = [] \<or> (\<not> is_space (hd (strip x)) \<and> \<not> is_space (last (strip x)))"
proof (cases "strip x = []")
  case True
  then show ?thesis by simp
next
  case False
  define y where "y = dropWhile is_space x"
  define z where "z = dropWhile is_space (rev y)"
  have s: "strip x = rev z" by (simp add: strip_def y_def z_def)
  with False have zne: "z \<noteq> []" by simp
  then have l: "\<not> is_space (hd z)" unfolding z_def using hd_dropWhile by blast
  have "rev z @ rev (takeWhile is_space (rev y)) = y"
    unfolding z_def by (rule rstrip_split)
  with zne have "hd (rev z) = hd y" and "y \<noteq> []"
    by (metis hd_append2 rev_is_Nil_conv, metis append_is_Nil_conv rev_is_Nil_conv zne)
  moreover from \<open>y \<noteq> []\<close> have "\<not> is_space (hd y)"
    unfolding y_def using hd_dropWhile by blast
  ultimately have "\<not> is_space (hd (rev z))" by simp
  moreover from zne l have "\<not> is_space (last (rev z))" by (simp add: last_rev)
  ultimately show ?thesis by (simp add: s)
qed

lemma dropWhile_keep: "xs \<noteq> [] \<Longrightarrow> \<not> P (hd xs) \<Longrightarrow> dropWhile P xs = xs"
  by (cases xs) auto

lemma strip_id: "x = [] \<or> (\<not> is_space (hd x) \<and> \<not> is_space (last x)) \<Longrightarrow> strip x = x"
proof (cases x)
  case Nil
  then show ?thesis by (simp add: strip_def)
next
  case (Cons c cs)
  assume "x = [] \<or> (\<not> is_space (hd x) \<and> \<not> is_space (last x))"
  with Cons have h: "\<not> is_space (hd x)" and l: "\<not> is_space (last x)" by auto
  from h Cons have "dropWhile is_space x = x" by simp
  moreover have "dropWhile is_space (rev x) = rev x"
  proof (rule dropWhile_keep)
    from Cons show "rev x \<noteq> []" by simp
    from Cons have "x \<noteq> []" by simp
    then have "hd (rev x) = last x" by (simp only: hd_rev)
    with l show "\<not> is_space (hd (rev x))" by simp
  qed
  ultimately show ?thesis by (simp add: strip_def)
qed

lemma clean_idem: "clean_text (PStr (clean_text v)) = clean_text v"
proof (cases "isna v")
  case True
  then show ?thesis by (simp add: clean_text_def strip_def)
next
  case False
  define r where "r = strip (re_sub_ws (py_str v))"
  have c: "collapsed r" unfolding r_def by (rule collapsed_strip) (rule collapsed_sub)
  have e: "r = [] \<or> (\<not> is_space (hd r) \<and> \<not> is_space (last r))"
    unfolding r_def by (rule strip_ends)
  from c have "re_sub_ws r = r" by (rule sub_collapsed)
  with e have "strip (re_sub_ws r) = r" by (simp add: strip_id)
  with False show ?thesis by (simp add: clean_text_def r_def)
qed

lemma tokens_all_space: "\<forall>c\<in>set w. is_space c \<Longrightarrow> tokens w = []"
  by (induction w) auto

lemma tokens_dropWhile: "tokens (dropWhile is_space cs) = tokens cs"
  by (induction cs) auto

lemma sub_dropWhile_nsp:
  "re_sub_ws cs = takeWhile (\<lambda>x. \<not> is_space x) cs @ re_sub_ws (dropWhile (\<lambda>x. \<not> is_space x) cs)"
  by (induction cs) auto

lemma span_append:
  "\<forall>x\<in>set p. Q x \<Longrightarrow> q = [] \<or> \<not> Q (hd q) \<Longrightarrow>
   takeWhile Q (p @ q) = p \<and> dropWhile Q (p @ q) = q"
  by (induction p) (cases q, auto)+

lemma tokens_nsp_prefix:
  "\<forall>x\<in>set p. \<not> is_space x \<Longrightarrow> \<not> is_space c \<Longrightarrow> q = [] \<or> is_space (hd q) \<Longrightarrow>
   tokens (c # p @ q) = (c # p) # tokens q"
  using span_append [of p "\<lambda>x. \<not> is_space x" q] by simp

lemma tokens_sub: "tokens (re_sub_ws s) = tokens s"
proof (induction "length s" arbitrary: s rule: less_induct)
  case less
  show ?case
  proof (cases s)
    case Nil
    then show ?thesis by simp
  next
    case (Cons c cs)
    show ?thesis
    proof (cases "is_space c")
      case True
      have "length (dropWhile is_space cs) < length s"
        using Cons length_dropWhile_le [of is_space cs] by simp
      then have "tokens (re_sub_ws (dropWhile is_space cs)) = tokens (dropWhile is_space cs)"
        by (rule less)
      with True Cons show ?thesis by (simp add: tokens_dropWhile)
    next
      case False
      define p where "p = takeWhile (\<lambda>x. \<not> is_space x) cs"
      define q where "q = dropWhile (\<lambda>x. \<not> is_space x) cs"
      have pn: "\<forall>x\<in>set p. \<not> is_space x" unfolding p_def by (auto dest: set_takeWhileD)
      have qh: "q = [] \<or> is_space (hd q)" unfolding q_def using hd_dropWhile [of "\<lambda>x. \<not> is_space x" cs] by blast
      have "length q < length s"
        using Cons length_dropWhile_le [of "\<lambda>x. \<not> is_space x" cs] by (simp add: q_def)
      then have ih: "tokens (re_sub_ws q) = tokens q" by (rule less)
      have sq: "re_sub_ws q = [] \<or> is_space (hd (re_sub_ws q))"
        using qh by (cases q) auto
      have "re_sub_ws s = c # p @ re_sub_ws q"
        using False Cons sub_dropWhile_nsp [of cs] by (simp add: p_def q_def)
      then have "tokens (re_sub_ws s) = (c # p) # tokens (re_sub_ws q)"
        using tokens_nsp_prefix [OF pn False sq] by simp
      moreover have "tokens s = (c # p) # tokens q"
        using False Cons by (simp add: p_def q_def)
      ultimately show ?thesis using ih by simp
    qed
  qed
qed

lemma tokens_append_spaces: "\<forall>c\<in>set w. is_space c \<Longrightarrow> tokens (y @ w) = tokens y"
proof (induction "length y" arbitrary: y rule: less_induct)
  case less
  show ?case
  proof (cases y)
    case Nil
    with less(2) show ?thesis by (simp add: tokens_all_space)
  next
    case (Cons c cs)
    show ?thesis
    proof (cases "is_space c")
      case True
      have "tokens (cs @ w) = tokens cs" using less(1) [of cs] less(2) Cons by simp
      with True Cons show ?thesis by simp
    next
      case False
      define p where "p = takeWhile (\<lambda>x. \<not> is_space x) cs"
      define q where "q = dropWhile (\<lambda>x. \<not> is_space x) cs"
      have pn: "\<forall>x\<in>set p. \<not> is_space x" unfolding p_def by (auto dest: set_takeWhileD)
      have qh: "q = [] \<or> is_space (hd q)" unfolding q_def using hd_dropWhile [of "\<lambda>x. \<not> is_space x" cs] by blast
      have "length q < length y"
        using Cons length_dropWhile_le [of "\<lambda>x. \<not> is_space x" cs] by (simp add: q_def)
      then have ih: "tokens (q @ w) = tokens q" using less by blast
      have qw: "q @ w = [] \<or> is_space (hd (q @ w))"
        using qh less(2) by (cases q; cases w) auto
      have y: "y = c # p @ q" using Cons by (simp add: p_def q_def)
      have "tokens (y @ w) = (c # p) # tokens (q @ w)"
        using tokens_nsp_prefix [OF pn False qw] y by simp
      moreover have "tokens y = (c # p) # tokens q"
        using tokens_nsp_prefix [OF pn False qh] y by simp
      ultimately show ?thesis using ih by simp
    qed
  qed
qed

lemma tokens_strip: "tokens (strip x) = tokens x"
proof -
  define y where "y = dropWhile is_space x"
  have "rev (dropWhile is_space (rev y)) @ rev (takeWhile is_space (rev y)) = y"
    by (rule rstrip_split)
  moreover have "\<forall>c\<in>set (rev (takeWhile is_space (rev y))). is_space c"
    by (auto dest: set_takeWhileD)
  ultimately have "tokens (rev (dropWhile is_space (rev y))) = tokens y"
    using tokens_append_spaces by metis
  then show ?thesis by (simp add: strip_def y_def tokens_dropWhile)
qed

lemma join_space_Cons: "join_space (w # ws) = (if ws = [] then w else w @ 32 # join_space ws)"
  by (cases ws) auto

lemma join_tokens:
  "collapsed r \<Longrightarrow> r = [] \<or> \<not> is_space (last r) \<Longrightarrow>
   join_space (tokens r) = dropWhile is_space r"
proof (induction "length r" arbitrary: r rule: less_induct)
  case less
  show ?case
  proof (cases r)
    case Nil
    then show ?thesis by simp
  next
    case (Cons c cs)
    with less(2) have cc: "collapsed cs" by simp
    show ?thesis
    proof (cases "is_space c")
      case True
      with less(3) Cons have ne: "cs \<noteq> []" by auto
      with less(3) Cons have "\<not> is_space (last cs)" by simp
      with cc have "join_space (tokens cs) = dropWhile is_space cs"
        using less(1) [of cs] Cons by simp
      with True Cons show ?thesis by simp
    next
      case False
      define p where "p = takeWhile (\<lambda>x. \<not> is_space x) cs"
      define q where "q = dropWhile (\<lambda>x. \<not> is_space x) cs"
      have pq: "cs = p @ q" by (simp add: p_def q_def)
      have t: "tokens r = (c # p) # tokens q" using False Cons by (simp add: p_def q_def)
      have d: "dropWhile is_space r = r" using False Cons by simp
      show ?thesis
      proof (cases q)
        case Nil
        with t pq Cons d show ?thesis by simp
      next
        case (Cons s rest)
        have "q = [] \<or> is_space (hd q)"
          unfolding q_def using hd_dropWhile [of "\<lambda>x. \<not> is_space x" cs] by blast
        with Cons have sp: "is_space s" by simp
        have cq: "collapsed q" using cc pq collapsed_append [of p q] by simp
        with sp Cons have s32: "s = 32" and rh: "rest = [] \<or> \<not> is_space (hd rest)"
          by auto
        have lq: "\<not> is_space (last q)" using less(3) \<open>r = c # cs\<close> pq Cons by simp
        with sp Cons have rne: "rest \<noteq> []" by auto
        with rh have dq: "dropWhile is_space q = rest" using sp Cons by (cases rest) auto
        have "length q < length r" using pq \<open>r = c # cs\<close> by simp
        then have "join_space (tokens q) = dropWhile is_space q"
          using less(1) [of q] cq lq by simp
        moreover have "tokens q \<noteq> []"
          using rne rh sp Cons by (cases rest) auto
        ultimately have "join_space (tokens r) = (c # p) @ 32 # rest"
          using t dq by (simp add: join_space_Cons)
        with d pq Cons s32 \<open>r = c # cs\<close> show ?thesis by simp
      qed
    qed
  qed
qed

lemma clean_text_join:
  "\<not> isna v \<Longrightarrow> clean_text v = join_space (tokens (py_str v))"
proof -
  assume n: "\<not> isna v"
  define r where "r = strip (re_sub_ws (py_str v))"
  have c: "collapsed r" unfolding r_def by (rule collapsed_strip) (rule collapsed_sub)
  have e: "r = [] \<or> (\<not> is_space (hd r) \<and> \<not> is_space (last r))"
    unfolding r_def by (rule strip_ends)
  then have "dropWhile is_space r = r" by (cases r) auto
  moreover from c e have "join_space (tokens r) = dropWhile is_space r"
    by (intro join_tokens) auto
  moreover have "tokens r = tokens (py_str v)"
    by (simp add: r_def tokens_strip tokens_sub)
  ultimately show ?thesis using n by (simp add: clean_text_def r_def)
qed

lemma collapsed_nth:
  "collapsed r \<Longrightarrow> Suc i < length r \<Longrightarrow> \<not> (is_space (r ! i) \<and> is_space (r ! Suc i))"
proof (induction r arbitrary: i)
  case Nil
  then show ?case by simp
next
  case (Cons c cs)
  show ?case
  proof (cases i)
    case 0
    with Cons.prems show ?thesis by (cases cs) auto
  next
    case (Suc k)
    with Cons show ?thesis by simp
  qed
qed

lemma collapsed_set: "collapsed r \<Longrightarrow> c \<in> set r \<Longrightarrow> is_space c \<Longrightarrow> c = 32"
  by (induction r) auto

lemma clean_text_shape:
  "collapsed (clean_text v) \<and>
   (clean_text v = [] \<or> (\<not> is_space (hd (clean_text v)) \<and> \<not> is_space (last (clean_text v))))"
proof (cases "isna v")
  case True
  then show ?thesis by (simp add: clean_text_def)
next
  case False
  then show ?thesis
    using collapsed_strip [OF collapsed_sub, of "py_str v"] strip_ends [of "re_sub_ws (py_str v)"]
    by (simp add: clean_text_def)
qed

lemma clean_text_tokens: "\<not> isna v \<Longrightarrow> tokens (clean_text v) = tokens (py_str v)"
  by (simp add: clean_text_def tokens_strip tokens_sub)

lemma space_eval:
  "is_space 9" "is_space 10" "is_space 160" "\<not> is_space 97" "\<not> is_space 98"
  by (simp_all add: is_space_def)

text \<open>
  Claim C4. For every cell value, \<open>clean_text\<close> gives the empty string for a missing
  value; otherwise it gives the words of the value's text joined by single spaces, which
  keeps every word in order, turns each run of whitespace between two words into one
  space, and leaves no whitespace at either end: every whitespace character of the result
  is a plain space, no two of them are adjacent, and the result neither starts nor ends
  with one.
\<close>
theorem clean_text_normalizes:
  "(isna v \<longrightarrow> clean_text v = []) \<and>
   (\<not> isna v \<longrightarrow> clean_text v = join_space (tokens (py_str v)) \<and>
      tokens (clean_text v) = tokens (py_str v)) \<and>
   (\<forall>c\<in>set (clean_text v). is_space c \<longrightarrow> c = 32) \<and>
   (\<forall>i. Suc i < length (clean_text v) \<longrightarrow>
      \<not> (is_space (clean_text v ! i) \<and> is_space (clean_text v ! Suc i))) \<and>
   (clean_text v \<noteq> [] \<longrightarrow>
      \<not> is_space (hd (clean_text v)) \<and> \<not> is_space (last (clean_text v)))"
proof (intro conjI)
  show "isna v \<longrightarrow> clean_text v = []" by (simp add: clean_text_def)
  show "\<not> isna v \<longrightarrow> clean_text v = join_space (tokens (py_str v)) \<and>
      tokens (clean_text v) = tokens (py_str v)"
    using clean_text_join [of v] clean_text_tokens [of v] by blast
  show "\<forall>c\<in>set (clean_text v). is_space c \<longrightarrow> c = 32"
    using clean_text_shape [of v] collapsed_set by blast
  show "\<forall>i. Suc i < length (clean_text v) \<longrightarrow>
      \<not> (is_space (clean_text v ! i) \<and> is_space (clean_text v ! Suc i))"
    using clean_text_shape [of v] collapsed_nth by blast
  show "clean_text v \<noteq> [] \<longrightarrow>
      \<not> is_space (hd (clean_text v)) \<and> \<not> is_space (last (clean_text v))"
    using clean_text_shape [of v] by blast
qed

theorem clean_text_normalizes_witness:
  "clean_text (PStr [9, 32, 97, 32, 10, 160, 98, 32]) = [97, 32, 98] \<and>
   tokens [9, 32, 97, 32, 10, 160, 98, 32] = [[97], [98]]"
proof -
  have t: "tokens [9, 32, 97, 32, 10, 160, 98, 32] = [[97], [98]]"
    by (simp add: space_eval)
  from clean_text_normalizes [of "PStr [9, 32, 97, 32, 10, 160, 98, 32]"]
  have "clean_text (PStr [9, 32, 97, 32, 10, 160, 98, 32]) =
      join_space (tokens (py_str (PStr [9, 32, 97, 32, 10, 160, 98, 32])))"
    by simp
  with t show ?thesis by simp
qed

text \<open>
  Claim C5. Normalization is idempotent: cleaning the text that \<open>clean_text\<close> returned
  gives that text again.
\<close>
theorem clean_text_idempotent: "clean_text (PStr (clean_text v)) = clean_text v"
  by (rule clean_idem)

theorem clean_text_idempotent_witness:
  "clean_text (PStr (clean_text (PStr [32, 97, 10, 10, 98]))) = [97, 32, 98]"
proof -
  have "clean_text (PStr [32, 97, 10, 10, 98]) = [97, 32, 98]"
    by (simp add: clean_text_def strip_def space_eval)
  with clean_text_idempotent [of "PStr [32, 97, 10, 10, 98]"] show ?thesis by simp
qed

section \<open>The rendered document\<close>

lemma xml_safe_Nil [simp]: "xml_safe [] = True"
  by (simp add: xml_safe_def)

lemma xml_safe_append [simp]: "xml_safe (a @ b) = (xml_safe a \<and> xml_safe b)"
  by (simp add: xml_safe_def)

lemma xml_safe_Cons: "xml_safe (c # s) = (xml_char c \<and> xml_safe s)"
  by (simp add: xml_safe_def)

lemma xml_safe_literals [simp]:
  "xml_safe (ascii ''SUB_'')"
  "xml_safe (ascii ''TOC_SUB_'')"
  "xml_safe (ascii ''TOC'')"
  "xml_safe (ascii ''Submission ID: '')"
  "xml_safe (ascii ''Track: '')"
  "xml_safe (ascii ''Abstract: '')"
  "xml_safe (ascii ''Table of Contents'')"
  "xml_safe back_text"
  by (simp_all add: xml_safe_def xml_char_def ascii_def back_text_def)

lemma xml_safe_title_literals [simp]:
  "xml_safe (ascii ''IMRC 2025'')"
  "xml_safe (ascii ''India Management Research Conference'')"
  "xml_safe (ascii ''IIM Ahmedabad'')"
  "xml_safe (ascii ''December 5-7, 2025'')"
  "xml_safe (ascii ''Book of Abstracts'')"
  by (simp_all add: xml_safe_def xml_char_def ascii_def)

lemma ascii_nonempty [simp]:
  "ascii ''Submission ID: '' \<noteq> []" "ascii ''Track: '' \<noteq> []"
  "ascii ''Abstract: '' \<noteq> []" "ascii ''Table of Contents'' \<noteq> []"
  by (simp_all add: ascii_def)

lemma run_text_append [simp]: "run_text (a @ b) = run_text a @ run_text b"
  by (simp add: run_text_def)

lemma run_text_literals [simp]:
  "run_text (ascii ''Submission ID: '') = ascii ''Submission ID: ''"
  "run_text (ascii ''Track: '') = ascii ''Track: ''"
  "run_text (ascii ''Abstract: '') = ascii ''Abstract: ''"
  "run_text (ascii ''Table of Contents'') = ascii ''Table of Contents''"
  by (simp_all add: run_text_def ascii_def)

lemma run_text_id: "13 \<notin> set s \<Longrightarrow> run_text s = s"
  by (induction s) (auto simp: run_text_def)

lemma is_space_13: "is_space 13"
  by (simp add: is_space_def)

lemma run_text_clean [simp]: "run_text (clean_text v) = clean_text v"
proof (rule run_text_id)
  show "13 \<notin> set (clean_text v)"
  proof
    assume "13 \<in> set (clean_text v)"
    with clean_text_shape [of v] have "(13::nat) = 32"
      using collapsed_set is_space_13 by blast
    then show False by simp
  qed
qed

lemma ebind_Inr_iff: "ebind m f = Inr y \<longleftrightarrow> (\<exists>x. m = Inr x \<and> f x = Inr y)"
  by (cases m) (simp_all add: ebind_def)

lemma add_run_iff: "add_run s = Inr r \<longleftrightarrow> xml_safe s \<and> r = run_of s"
  by (auto simp: add_run_def run_of_def)

lemma add_bookmark_iff:
  "add_bookmark p n b = Inr q \<longleftrightarrow> xml_safe n \<and> q = insert_bookmark p n b"
  by (auto simp: add_bookmark_def)

lemma add_hyperlink_iff:
  "add_hyperlink p s a = Inr q \<longleftrightarrow> xml_safe a \<and> xml_safe s \<and> q = p @ [Hyperlink a [Text s]]"
  by (auto simp: add_hyperlink_def)

lemma count_one_mem: "count_list xs x = Suc 0 \<Longrightarrow> x \<in> set xs"
  using count_list_0_iff [of xs x] by auto

lemma getitem_clean_iff:
  "ebind (getitem (cols, r) k) clean_item = Inr s \<longleftrightarrow>
     count_list cols k = 1 \<and> s = clean_text (r k)"
  by (auto simp: ebind_def dest: count_one_mem)

lemma getitem_str_iff:
  "(\<exists>it. getitem (cols, r) k = Inr it \<and> str_item it = Inr s) \<longleftrightarrow>
     count_list cols k = 1 \<and> s = py_str (r k)"
  by (auto dest: count_one_mem)

lemma toc_row_iff:
  "toc_row (cols, r) b = Inr x \<longleftrightarrow> toc_ok cols r \<and> x = (toc_cells r (b + 1), b + 1)"
proof -
  have "toc_row (cols, r) b = Inr x \<longleftrightarrow>
      (\<exists>it. getitem (cols, r) (ascii ''Submission ID'') = Inr it \<and>
        count_list cols (ascii ''Title'') = 1 \<and> count_list cols (ascii ''Authors'') = 1 \<and>
        (\<exists>s. str_item it = Inr s \<and> xml_safe s \<and>
          xml_safe (clean_text (r (ascii ''Title''))) \<and>
          xml_safe (clean_text (r (ascii ''Authors''))) \<and>
          x = ([Tc 1 [[Hyperlink (ascii ''SUB_'' @ s) [Text s],
                       Run [BookmarkStart (b + 1) (ascii ''TOC_SUB_'' @ s), BookmarkEnd (b + 1)]]],
                Tc 1 [[Hyperlink (ascii ''SUB_'' @ s) [Text (clean_text (r (ascii ''Title'')))]]],
                Tc 1 [[Hyperlink (ascii ''SUB_'' @ s) [Text (clean_text (r (ascii ''Authors'')))]]]],
               b + 1)))"
    unfolding toc_row_def
    by (simp only: ebind_Inr_iff getitem_clean_iff add_hyperlink_iff add_bookmark_iff
        next_bid_def fst_conv snd_conv) (auto simp: )
  also have "\<dots> \<longleftrightarrow> toc_ok cols r \<and> x = (toc_cells r (b + 1), b + 1)"
    using getitem_str_iff [of cols r "ascii ''Submission ID''"]
    by (auto simp: toc_ok_def toc_cells_def sid_def dest: count_one_mem)
  finally show ?thesis .
qed

lemma ebind_InrE:
  assumes "ebind m f = Inr y"
  obtains x where "m = Inr x" and "f x = Inr y"
  using assms by (cases m) (simp_all add: ebind_def)

lemma getitem_Cell:
  "count_list cols k = 1 \<Longrightarrow> getitem (cols, r) k = Inr (Cell (r k))"
  by (auto dest: count_one_mem)

lemma getitem_str:
  "getitem (cols, r) k = Inr it \<Longrightarrow> str_item it = Inr s \<Longrightarrow>
   count_list cols k = 1 \<and> s = py_str (r k)"
  by (cases it) (auto split: if_splits)

lemma abstract_card_ok:
  assumes "has_cols cols" and "row_safe r" and "xml_safe t"
  shows "abstract_card (cols, r) idx n t b =
     Inr (Table (card_table r t (b + 1)) # card_tail r idx n, b + 1)"
proof -
  from assms(1) have g:
    "getitem (cols, r) (ascii ''Submission ID'') = Inr (Cell (r (ascii ''Submission ID'')))"
    "getitem (cols, r) (ascii ''Title'') = Inr (Cell (r (ascii ''Title'')))"
    "getitem (cols, r) (ascii ''Authors'') = Inr (Cell (r (ascii ''Authors'')))"
    "getitem (cols, r) (ascii ''Abstract'') = Inr (Cell (r (ascii ''Abstract'')))"
    by (simp_all only: has_cols_def getitem_Cell)
  from assms(2) have s: "xml_safe (py_str (r (ascii ''Submission ID'')))"
    "xml_safe (clean_text (r (ascii ''Title'')))"
    "xml_safe (clean_text (r (ascii ''Authors'')))"
    "xml_safe (clean_text (r (ascii ''Abstract'')))"
    by (simp_all add: row_safe_def sid_def)
  show ?thesis
    unfolding abstract_card_def
    by (simp add: g s assms(3) ebind_def add_run_def add_bookmark_def add_hyperlink_def
        next_bid_def card_table_def card_tail_def sid_def run_of_def del: getitem.simps)
qed

lemma getitem_clean:
  "getitem (cols, r) k = Inr it \<Longrightarrow> clean_item it = Inr s \<Longrightarrow>
   count_list cols k = 1 \<and> s = clean_text (r k)"
  by (cases it) (auto split: if_splits)

lemma abstract_card_Inr:
  assumes "abstract_card (cols, r) idx n t b = Inr x"
  shows "has_cols cols \<and> row_safe r \<and> xml_safe t"
proof -
  from assms obtain it a1 a2 a3 title authors abstract s r1 r2 where
    i: "getitem (cols, r) (ascii ''Submission ID'') = Inr it"
    and t1: "getitem (cols, r) (ascii ''Title'') = Inr a1" "clean_item a1 = Inr title"
    and t2: "getitem (cols, r) (ascii ''Authors'') = Inr a2" "clean_item a2 = Inr authors"
    and t3: "getitem (cols, r) (ascii ''Abstract'') = Inr a3" "clean_item a3 = Inr abstract"
    and s: "str_item it = Inr s"
    and r1: "add_run (ascii ''Submission ID: '' @ s) = Inr r1"
    and r2: "add_run (ascii ''Track: '' @ t) = Inr r2"
    and r3: "\<exists>q. add_run title = Inr q" "\<exists>q. add_run authors = Inr q"
      "\<exists>q. add_run abstract = Inr q"
    unfolding abstract_card_def by (elim ebind_InrE) blast
  from getitem_str [OF i s] getitem_clean [OF t1] getitem_clean [OF t2] getitem_clean [OF t3]
  have c: "has_cols cols" and e: "s = sid r" "title = clean_text (r (ascii ''Title''))"
    "authors = clean_text (r (ascii ''Authors''))" "abstract = clean_text (r (ascii ''Abstract''))"
    by (simp_all add: has_cols_def sid_def)
  from r1 r2 r3 have "xml_safe s" "xml_safe t" "xml_safe title" "xml_safe authors"
    "xml_safe abstract"
    by (auto simp: add_run_iff)
  with c e show ?thesis by (simp add: row_safe_def)
qed

lemma abstract_card_iff:
  "abstract_card (cols, r) idx n t b = Inr x \<longleftrightarrow>
     has_cols cols \<and> row_safe r \<and> xml_safe t \<and>
     x = (Table (card_table r t (b + 1)) # card_tail r idx n, b + 1)"
  using abstract_card_Inr [of cols r idx n t b x] abstract_card_ok [of cols r t idx n b]
  by auto

lemma toc_rows_iff:
  "toc_rows (map (\<lambda>r. (cols, r)) rs) b = Inr x \<longleftrightarrow>
     list_all (toc_ok cols) rs \<and> x = (toc_pure rs b, b + length rs)"
proof (induction rs arbitrary: b x)
  case Nil
  show ?case by auto
next
  case (Cons r rs)
  have "toc_rows (map (\<lambda>r. (cols, r)) (r # rs)) b = Inr x \<longleftrightarrow>
      toc_ok cols r \<and> (\<exists>y. toc_rows (map (\<lambda>r. (cols, r)) rs) (b + 1) = Inr y \<and>
        x = (toc_cells r (b + 1) # fst y, snd y))"
    by (simp add: ebind_Inr_iff toc_row_iff) blast
  also have "\<dots> \<longleftrightarrow> list_all (toc_ok cols) (r # rs) \<and>
      x = (toc_pure (r # rs) b, b + length (r # rs))"
    by (simp add: Cons)
  finally show ?case .
qed

lemma abstracts_iff:
  "abstracts (map (\<lambda>r. (cols, r)) rs) idx n t b = Inr x \<longleftrightarrow>
     list_all (\<lambda>r. has_cols cols \<and> row_safe r \<and> xml_safe t) rs \<and>
     x = (cards_pure rs idx n t b, b + length rs)"
proof (induction rs arbitrary: idx b x)
  case Nil
  show ?case by auto
next
  case (Cons r rs)
  have "abstracts (map (\<lambda>r. (cols, r)) (r # rs)) idx n t b = Inr x \<longleftrightarrow>
      (has_cols cols \<and> row_safe r \<and> xml_safe t) \<and>
      (\<exists>y. abstracts (map (\<lambda>r. (cols, r)) rs) (idx + 1) n t (b + 1) = Inr y \<and>
        x = ((Table (card_table r t (b + 1)) # card_tail r idx n) @ fst y, snd y))"
    by (simp add: ebind_Inr_iff abstract_card_iff) blast
  also have "\<dots> \<longleftrightarrow> list_all (\<lambda>r. has_cols cols \<and> row_safe r \<and> xml_safe t) (r # rs) \<and>
      x = (cards_pure (r # rs) idx n t b, b + length (r # rs))"
    by (simp add: Cons)
  finally show ?case .
qed

lemma centered_iff: "centered s = Inr p \<longleftrightarrow> xml_safe s \<and> p = Paragraph [run_of s]"
  by (auto simp: centered_def ebind_Inr_iff add_run_iff)

lemma title_page_ok: "xml_safe t \<Longrightarrow> title_page t = Inr (title_blocks t)"
proof -
  assume "xml_safe t"
  then have "centered (ascii ''Track: '' @ t) = Inr (Paragraph [run_of (ascii ''Track: '' @ t)])"
    by (simp add: centered_iff)
  moreover have "\<And>s. xml_safe s \<Longrightarrow> centered s = Inr (Paragraph [run_of s])"
    by (simp add: centered_iff)
  ultimately show ?thesis
    by (simp add: title_page_def title_blocks_def ebind_def)
qed

lemma title_page_Inr: "title_page t = Inr front \<Longrightarrow> xml_safe t"
  unfolding title_page_def by (elim ebind_InrE) (simp add: centered_iff)

lemma title_page_iff: "title_page t = Inr front \<longleftrightarrow> xml_safe t \<and> front = title_blocks t"
  using title_page_ok [of t] title_page_Inr [of t front] by auto

lemma header_row_eq: "header_row = Inr header_tcs"
  by (simp add: header_row_def hdrs_def header_cell_def ebind_def add_run_def header_tcs_def
      xml_safe_def xml_char_def run_text_def ascii_def)

lemma toc_ok_of_card:
  "list_all (\<lambda>r. has_cols cols \<and> row_safe r \<and> xml_safe t) rs \<Longrightarrow> list_all (toc_ok cols) rs"
  by (induction rs) (auto simp: toc_ok_def has_cols_def row_safe_def)

lemma length_records [simp]: "length (records df) = length (rows df)"
  by (simp add: records_def)

lemma records_Nil: "records df = [] \<longleftrightarrow> rows df = []"
  by (simp add: records_def)

lemma records_object: "values_dtype df \<noteq> Float64 \<Longrightarrow> records df = rows df"
  by (simp add: records_def)

lemma floats_known_object: "values_dtype df \<noteq> Float64 \<Longrightarrow> floats_known df"
  by (simp add: floats_known_def)

lemma iterrows_iff:
  "iterrows df = Inr x \<longleftrightarrow> floats_known df \<and> x = map (\<lambda>r. (columns df, r)) (records df)"
  by (auto simp: iterrows_def floats_known_def records_def comp_def)

lemma renderable_rows:
  "renderable df t \<longleftrightarrow>
     xml_safe t \<and> floats_known df \<and>
     list_all (\<lambda>r. has_cols (columns df) \<and> row_safe r \<and> xml_safe t) (records df)"
proof (cases "rows df = []")
  case True
  then have "records df = []" by (simp add: records_Nil)
  with True show ?thesis by (simp add: renderable_def)
next
  case False
  then have "records df \<noteq> []" by (simp add: records_Nil)
  with False show ?thesis by (cases "records df") (auto simp: renderable_def list_all_iff)
qed

lemma create_ok:
  assumes "renderable df t"
  shows "create_book_of_abstracts df t = Inr (book (records df) t)"
proof -
  let ?rs = "records df"
  note rr = renderable_rows [THEN iffD1, OF assms]
  have t: "xml_safe t" by (rule rr [THEN conjunct1])
  have f: "floats_known df" by (rule rr [THEN conjunct2, THEN conjunct1])
  have c: "list_all (\<lambda>r. has_cols (columns df) \<and> row_safe r \<and> xml_safe t) ?rs"
    by (rule rr [THEN conjunct2, THEN conjunct2])
  have i: "iterrows df = Inr (map (\<lambda>r. (columns df, r)) ?rs)"
    using f by (simp add: iterrows_iff)
  have a: "toc_rows (map (\<lambda>r. (columns df, r)) ?rs) (Suc 0) =
      Inr (toc_pure ?rs (Suc 0), Suc (length ?rs))"
    using toc_ok_of_card [OF c] by (simp add: toc_rows_iff)
  have b: "abstracts (map (\<lambda>r. (columns df, r)) ?rs) 0 (length ?rs) t (Suc (length ?rs)) =
      Inr (cards_pure ?rs 0 (length ?rs) t (Suc (length ?rs)),
        Suc (length ?rs) + length ?rs)"
    using c by (simp add: abstracts_iff)
  have l: "length (rows df) = length ?rs" by simp
  have h: "add_run (ascii ''Table of Contents'') = Inr (Run [Text (ascii ''Table of Contents'')])"
    by (simp add: add_run_def)
  have k: "add_bookmark [Run [Text (ascii ''Table of Contents'')]] (ascii ''TOC'') (Suc 0) =
      Inr [Run [BookmarkStart (Suc 0) (ascii ''TOC''), Text (ascii ''Table of Contents''),
        BookmarkEnd (Suc 0)]]"
    by (simp add: add_bookmark_def)
  show ?thesis
    unfolding create_book_of_abstracts_def l
    by (simp add: title_page_ok [OF t] h k header_row_eq i a b ebind_def next_bid_def book_def
        heading_def del: length_records)
qed

lemma create_Inr:
  assumes "create_book_of_abstracts df t = Inr doc"
  shows "renderable df t"
proof -
  from assms obtain front series2 bid2 y where f: "title_page t = Inr front"
    and i: "iterrows df = Inr series2"
    and "abstracts series2 0 (length (rows df)) t bid2 = Inr y"
    unfolding create_book_of_abstracts_def
    by (elim ebind_InrE) (auto simp: ebind_Inr_iff split: prod.splits)
  then have "abstracts (map (\<lambda>r. (columns df, r)) (records df)) 0 (length (records df)) t
      bid2 = Inr y"
    by (simp add: iterrows_iff)
  then have "list_all (\<lambda>r. has_cols (columns df) \<and> row_safe r \<and> xml_safe t) (records df)"
    by (simp add: abstracts_iff)
  moreover from f have "xml_safe t" by (rule title_page_Inr)
  moreover from i have "floats_known df" by (simp add: iterrows_iff)
  ultimately show ?thesis by (simp add: renderable_rows)
qed

lemma create_iff:
  "create_book_of_abstracts df t = Inr doc \<longleftrightarrow> renderable df t \<and> doc = book (records df) t"
  using create_ok [of df t] create_Inr [of df t doc] by auto

lemma inline_text_run_of [simp]: "inline_text (run_of t) = run_text t"
  by (simp add: run_of_def run_text_def)

lemma card_table_text:
  "map (map cell_text) (card_table r t b) =
     [[ascii ''Submission ID: '' @ run_text (sid r), ascii ''Track: '' @ run_text t],
      [clean_text (r (ascii ''Title''))],
      [clean_text (r (ascii ''Authors''))],
      [ascii ''Abstract: '' @ clean_text (r (ascii ''Abstract''))]]"
  by (simp add: card_table_def cell_text_def par_text_def)

lemma card_table_bookmarks: "table_bookmarks (card_table r t b) = [(b, ascii ''SUB_'' @ sid r)]"
  by (simp add: card_table_def table_bookmarks_def row_bookmarks_def cell_bookmarks_def
      par_bookmarks_def run_of_def)

lemma sections_Table:
  "sections (Table t # bs) = (t, takeWhile is_par bs) # sections bs"
proof -
  have "is_par = (\<lambda>b. case b of Table _ \<Rightarrow> False | Paragraph _ \<Rightarrow> True)"
    by (rule ext) (simp add: is_par_def)
  then show ?thesis by simp
qed

lemma sections_pars: "\<forall>b\<in>set ps. is_par b \<Longrightarrow> sections (ps @ bs) = sections bs"
proof (induction ps)
  case Nil
  show ?case by simp
next
  case (Cons p ps)
  then show ?case by (cases p) (simp_all add: is_par_def)
qed

lemma takeWhile_pars:
  "\<forall>b\<in>set ps. is_par b \<Longrightarrow> bs = [] \<or> \<not> is_par (hd bs) \<Longrightarrow> takeWhile is_par (ps @ bs) = ps"
  by (induction ps) (cases bs, auto)+

lemma cards_pure_hd: "cards_pure rs idx n t b = [] \<or> \<not> is_par (hd (cards_pure rs idx n t b))"
  by (cases rs) (simp_all add: is_par_def)

lemma card_tail_pars: "\<forall>b\<in>set (card_tail r idx n). is_par b"
  by (simp add: card_tail_def is_par_def)

lemma title_blocks_pars: "\<forall>b\<in>set (title_blocks t). is_par b"
  by (auto simp: title_blocks_def is_par_def run_of_def page_break_def)

lemma sections_cards_Cons:
  "sections (cards_pure (r # rs) idx n t b) =
     (card_table r t (b + 1), card_tail r idx n) # sections (cards_pure rs (idx + 1) n t (b + 1))"
  using takeWhile_pars [OF card_tail_pars cards_pure_hd]
    sections_pars [OF card_tail_pars]
  by (simp add: sections_Table del: sections.simps)

lemma sections_doc:
  "sections (title_blocks t @ [heading, Paragraph [], Table (header_tcs # drs), page_break] @
      cards_pure rs idx n t b) =
   (header_tcs # drs, [page_break]) # sections (cards_pure rs idx n t b)"
proof -
  let ?cards = "cards_pure rs idx n t b"
  have tw: "takeWhile is_par ([page_break] @ ?cards) = [page_break]"
    by (rule takeWhile_pars) (simp add: page_break_def is_par_def, rule cards_pure_hd)
  have pb: "sections ([page_break] @ ?cards) = sections ?cards"
    by (rule sections_pars) (simp add: page_break_def is_par_def)
  have "sections (title_blocks t @ [heading, Paragraph [], Table (header_tcs # drs), page_break] @
      ?cards) = sections ([heading, Paragraph []] @ Table (header_tcs # drs) # [page_break] @ ?cards)"
    using sections_pars [OF title_blocks_pars, of t] by simp
  also have "\<dots> = sections (Table (header_tcs # drs) # [page_break] @ ?cards)"
    by (rule sections_pars) (simp add: heading_def is_par_def)
  also have "\<dots> = (header_tcs # drs, [page_break]) # sections ?cards"
    by (simp only: sections_Table tw pb)
  finally show ?thesis .
qed

lemma card_tail_links:
  "concat (map block_links (card_tail r idx n)) = [(ascii ''TOC_SUB_'' @ sid r, back_text)]"
  by (simp add: card_tail_def par_links_def)

lemma card_tail_bookmarks: "concat (map block_bookmarks (card_tail r idx n)) = []"
  by (simp add: card_tail_def par_bookmarks_def)

lemma toc_cells_text:
  "map cell_text (toc_cells r b) =
     [sid r, clean_text (r (ascii ''Title'')), clean_text (r (ascii ''Authors''))]"
  by (simp add: toc_cells_def cell_text_def par_text_def)

lemma toc_cells_links:
  "map cell_links (toc_cells r b) =
     [[(ascii ''SUB_'' @ sid r, sid r)],
      [(ascii ''SUB_'' @ sid r, clean_text (r (ascii ''Title'')))],
      [(ascii ''SUB_'' @ sid r, clean_text (r (ascii ''Authors'')))]]"
  by (simp add: toc_cells_def cell_links_def par_links_def)

lemma toc_cells_bookmarks: "row_bookmarks (toc_cells r b) = [(b, ascii ''TOC_SUB_'' @ sid r)]"
  by (simp add: toc_cells_def row_bookmarks_def cell_bookmarks_def par_bookmarks_def)

lemma toc_pure_length: "length (toc_pure rs b) = length rs"
  by (induction rs arbitrary: b) simp_all

lemma toc_pure_text:
  "map (map cell_text) (toc_pure rs b) =
     map (\<lambda>r. [sid r, clean_text (r (ascii ''Title'')), clean_text (r (ascii ''Authors''))]) rs"
  by (induction rs arbitrary: b) (simp_all add: toc_cells_text)

lemma toc_pure_links:
  "map (map cell_links) (toc_pure rs b) =
     map (\<lambda>r. [[(ascii ''SUB_'' @ sid r, sid r)],
      [(ascii ''SUB_'' @ sid r, clean_text (r (ascii ''Title'')))],
      [(ascii ''SUB_'' @ sid r, clean_text (r (ascii ''Authors'')))]]) rs"
  by (induction rs arbitrary: b) (simp_all add: toc_cells_links)

lemma toc_pure_row_bookmarks:
  "map (\<lambda>row. map snd (row_bookmarks row)) (toc_pure rs b) =
     map (\<lambda>r. [ascii ''TOC_SUB_'' @ sid r]) rs"
  by (induction rs arbitrary: b) (simp_all add: toc_cells_bookmarks)

lemma upt_step: "[Suc b ..< Suc b + Suc n] = Suc b # [Suc (Suc b) ..< Suc (Suc b) + n]"
  by (simp add: upt_conv_Cons)

lemma toc_pure_bookmarks:
  "table_bookmarks (toc_pure rs b) =
     zip [Suc b ..< Suc b + length rs] (map (\<lambda>r. ascii ''TOC_SUB_'' @ sid r) rs)"
proof (induction rs arbitrary: b)
  case Nil
  show ?case by (simp add: table_bookmarks_def)
next
  case (Cons r rs)
  have "table_bookmarks (toc_pure (r # rs) b) =
      (Suc b, ascii ''TOC_SUB_'' @ sid r) # table_bookmarks (toc_pure rs (Suc b))"
    by (simp add: table_bookmarks_def toc_cells_bookmarks)
  also have "table_bookmarks (toc_pure rs (Suc b)) =
      zip [Suc (Suc b) ..< Suc (Suc b) + length rs] (map (\<lambda>r. ascii ''TOC_SUB_'' @ sid r) rs)"
    by (rule Cons)
  finally show ?case by (simp only: upt_step list.map length_Cons zip_Cons_Cons)
qed

lemma doc_bookmarks_append: "doc_bookmarks (a @ b) = doc_bookmarks a @ doc_bookmarks b"
  by (simp add: doc_bookmarks_def)

lemma cards_pure_bookmarks:
  "doc_bookmarks (cards_pure rs idx n t b) =
     zip [Suc b ..< Suc b + length rs] (map (\<lambda>r. ascii ''SUB_'' @ sid r) rs)"
proof (induction rs arbitrary: b idx)
  case Nil
  show ?case by (simp add: doc_bookmarks_def)
next
  case (Cons r rs)
  have "doc_bookmarks (cards_pure (r # rs) idx n t b) =
      (Suc b, ascii ''SUB_'' @ sid r) # doc_bookmarks (cards_pure rs (idx + 1) n t (Suc b))"
    using card_tail_bookmarks [of r idx n]
    by (simp add: doc_bookmarks_def card_table_bookmarks)
  also have "doc_bookmarks (cards_pure rs (idx + 1) n t (Suc b)) =
      zip [Suc (Suc b) ..< Suc (Suc b) + length rs] (map (\<lambda>r. ascii ''SUB_'' @ sid r) rs)"
    by (rule Cons)
  finally show ?case by (simp only: upt_step list.map length_Cons zip_Cons_Cons)
qed

lemma sections_cards_length: "length (sections (cards_pure rs idx n t b)) = length rs"
  by (induction rs arbitrary: idx b) (simp_all add: sections_cards_Cons del: cards_pure.simps(2))

lemma sections_cards_anchors:
  "map (\<lambda>(tbl, after). (map snd (table_bookmarks tbl), concat (map block_links after)))
     (sections (cards_pure rs idx n t b)) =
   map (\<lambda>r. ([ascii ''SUB_'' @ sid r], [(ascii ''TOC_SUB_'' @ sid r, back_text)])) rs"
  by (induction rs arbitrary: idx b)
    (simp_all add: sections_cards_Cons card_table_bookmarks card_tail_links del: cards_pure.simps(2))

lemma title_blocks_bookmarks: "doc_bookmarks (title_blocks t) = []"
  by (simp add: title_blocks_def doc_bookmarks_def run_of_def par_bookmarks_def run_of_def
      page_break_def)

lemma header_tcs_bookmarks: "row_bookmarks header_tcs = []"
  by (simp add: header_tcs_def row_bookmarks_def cell_bookmarks_def
      par_bookmarks_def run_of_def ascii_def)

lemma doc_bookmarks_all:
  "doc_bookmarks (title_blocks t @
      [heading, Paragraph [], Table (header_tcs # toc_pure rs 1), page_break] @
      cards_pure rs 0 (length rs) t (1 + length rs)) =
   (1, ascii ''TOC'') #
   zip [Suc 1 ..< Suc 1 + length rs] (map (\<lambda>r. ascii ''TOC_SUB_'' @ sid r) rs) @
   zip [Suc (1 + length rs) ..< Suc (1 + length rs) + length rs] (map (\<lambda>r. ascii ''SUB_'' @ sid r) rs)"
proof -
  let ?front = "[heading, Paragraph [], Table (header_tcs # toc_pure rs 1), page_break]"
  let ?cards = "cards_pure rs 0 (length rs) t (1 + length rs)"
  have f: "doc_bookmarks ?front = (1, ascii ''TOC'') # table_bookmarks (toc_pure rs 1)"
    by (simp add: doc_bookmarks_def heading_def par_bookmarks_def table_bookmarks_def
        header_tcs_bookmarks page_break_def)
  have "doc_bookmarks (title_blocks t @ ?front @ ?cards) =
      doc_bookmarks (title_blocks t) @ doc_bookmarks ?front @ doc_bookmarks ?cards"
    by (simp only: doc_bookmarks_append)
  also have "\<dots> = ((1, ascii ''TOC'') # table_bookmarks (toc_pure rs 1)) @ doc_bookmarks ?cards"
    by (simp only: title_blocks_bookmarks f append_Nil)
  finally show ?thesis
    by (simp only: toc_pure_bookmarks cards_pure_bookmarks append_Cons)
qed

lemma map_snd_zip_upt: "map snd (zip [a ..< a + length ys] ys) = ys"
  by (rule map_snd_zip) simp

lemma map_fst_zip_upt: "map fst (zip [a ..< a + length ys] ys) = [a ..< a + length ys]"
  by (rule map_fst_zip) simp

lemma doc_bookmark_names:
  "map snd (doc_bookmarks (title_blocks t @
      [heading, Paragraph [], Table (header_tcs # toc_pure rs 1), page_break] @
      cards_pure rs 0 (length rs) t (1 + length rs))) =
   ascii ''TOC'' # map (\<lambda>r. ascii ''TOC_SUB_'' @ sid r) rs @ map (\<lambda>r. ascii ''SUB_'' @ sid r) rs"
proof -
  have a: "map snd (zip [Suc 1 ..< Suc 1 + length rs] (map (\<lambda>r. ascii ''TOC_SUB_'' @ sid r) rs)) =
      map (\<lambda>r. ascii ''TOC_SUB_'' @ sid r) rs"
    using map_snd_zip_upt [of "Suc 1" "map (\<lambda>r. ascii ''TOC_SUB_'' @ sid r) rs"] by simp
  have b: "map snd (zip [Suc (1 + length rs) ..< Suc (1 + length rs) + length rs]
        (map (\<lambda>r. ascii ''SUB_'' @ sid r) rs)) = map (\<lambda>r. ascii ''SUB_'' @ sid r) rs"
    using map_snd_zip_upt [of "Suc (1 + length rs)" "map (\<lambda>r. ascii ''SUB_'' @ sid r) rs"] by simp
  show ?thesis
    by (simp only: doc_bookmarks_all list.map map_append a b snd_conv)
qed

lemma doc_bookmark_ids:
  "map fst (doc_bookmarks (title_blocks t @
      [heading, Paragraph [], Table (header_tcs # toc_pure rs 1), page_break] @
      cards_pure rs 0 (length rs) t (1 + length rs))) = [1 ..< 2 * length rs + 2]"
proof -
  let ?n = "length rs"
  have a: "map fst (zip [Suc 1 ..< Suc 1 + ?n] (map (\<lambda>r. ascii ''TOC_SUB_'' @ sid r) rs)) =
      [Suc 1 ..< Suc 1 + ?n]"
    using map_fst_zip_upt [of "Suc 1" "map (\<lambda>r. ascii ''TOC_SUB_'' @ sid r) rs"] by simp
  have b: "map fst (zip [Suc (1 + ?n) ..< Suc (1 + ?n) + ?n]
        (map (\<lambda>r. ascii ''SUB_'' @ sid r) rs)) = [Suc (1 + ?n) ..< Suc (1 + ?n) + ?n]"
    using map_fst_zip_upt [of "Suc (1 + ?n)" "map (\<lambda>r. ascii ''SUB_'' @ sid r) rs"] by simp
  have e: "2 * ?n + 2 = (Suc 1 + ?n) + ?n" by simp
  have "[1 ..< (Suc 1 + ?n) + ?n] = [1 ..< Suc 1 + ?n] @ [Suc 1 + ?n ..< (Suc 1 + ?n) + ?n]"
    by (rule upt_add_eq_append) simp
  moreover have "[1 ..< Suc 1 + ?n] = 1 # [Suc 1 ..< Suc 1 + ?n]"
    by (rule upt_conv_Cons) simp
  moreover have "Suc 1 + ?n = Suc (1 + ?n)" by simp
  ultimately have "[1 ..< 2 * ?n + 2] =
      1 # [Suc 1 ..< Suc 1 + ?n] @ [Suc (1 + ?n) ..< Suc (1 + ?n) + ?n]"
    by (simp only: e append_Cons)
  then show ?thesis
    by (simp only: doc_bookmarks_all list.map map_append a b fst_conv)
qed

lemma prefix_facts:
  "ascii ''TOC_SUB_'' @ x \<noteq> ascii ''SUB_'' @ y"
  "ascii ''SUB_'' @ y \<noteq> ascii ''TOC_SUB_'' @ x"
  "ascii ''TOC_SUB_'' @ x \<noteq> ascii ''TOC''"
  "ascii ''SUB_'' @ x \<noteq> ascii ''TOC''"
  "ascii ''TOC'' \<noteq> ascii ''TOC_SUB_'' @ x"
  "ascii ''TOC'' \<noteq> ascii ''SUB_'' @ x"
  by (simp_all add: ascii_def)

lemma names_distinct:
  assumes "distinct (map sid rs)"
  shows "distinct (ascii ''TOC'' # map (\<lambda>r. ascii ''TOC_SUB_'' @ sid r) rs @
     map (\<lambda>r. ascii ''SUB_'' @ sid r) rs)"
proof -
  from assms have d: "distinct rs" and i: "inj_on sid (set rs)"
    by (simp_all add: distinct_map)
  have "inj_on (\<lambda>r. p @ sid r) (set rs)" for p :: pystr
    using i by (auto simp: inj_on_def)
  with d have "distinct (map (\<lambda>r. p @ sid r) rs)" for p :: pystr
    by (simp add: distinct_map)
  then show ?thesis by (auto simp: prefix_facts)
qed

lemma count_twice:
  assumes "i < j" and "j < length xs" and "xs ! i = xs ! j"
  shows "2 \<le> count_list xs (xs ! i)"
proof -
  have xs: "xs = take j xs @ xs ! j # drop (Suc j) xs"
    using assms(2) by (rule id_take_nth_drop)
  have "take j xs ! i = xs ! i" using assms(1) by simp
  moreover have "i < length (take j xs)" using assms(1,2) by simp
  ultimately have "xs ! i \<in> set (take j xs)" by (metis nth_mem)
  then have "1 \<le> count_list (take j xs) (xs ! i)"
    using count_list_0_iff [of "take j xs" "xs ! i"] by simp
  moreover have "count_list xs (xs ! i) =
      count_list (take j xs) (xs ! i) + count_list (xs ! j # drop (Suc j) xs) (xs ! i)"
    by (subst xs) (simp only: count_list_append)
  ultimately show ?thesis using assms(3) by simp
qed

lemma count_twice_map:
  assumes "i < j" and "j < length rs" and "f (rs ! i) = f (rs ! j)"
  shows "2 \<le> count_list (map f rs) (f (rs ! i))"
  using count_twice [of i j "map f rs"] assms by simp

lemma contents_rows_doc:
  "contents_rows (title_blocks t @ [heading, Paragraph [], Table (header_tcs # drs), page_break] @
      cards_pure rs idx n t b) = drs"
  by (simp only: contents_rows_def sections_doc list.case prod.case list.sel)

lemma cards_doc:
  "cards (title_blocks t @ [heading, Paragraph [], Table (header_tcs # drs), page_break] @
      cards_pure rs idx n t b) = sections (cards_pure rs idx n t b)"
  by (simp only: cards_def sections_doc list.sel)

lemma nth_map_eq: "map f xs = map g ys \<Longrightarrow> i < length ys \<Longrightarrow> f (xs ! i) = g (ys ! i)"
  by (metis length_map nth_map)

lemma distinct_count_le1: "distinct xs \<Longrightarrow> count_list xs x \<le> 1"
  by (induction xs) (auto simp: count_list_0_iff)

lemma sections_cards_text:
  "map (\<lambda>(tbl, after). map (map cell_text) tbl) (sections (cards_pure rs idx n t b)) =
     map (\<lambda>r. [[ascii ''Submission ID: '' @ run_text (sid r), ascii ''Track: '' @ run_text t],
      [clean_text (r (ascii ''Title''))],
      [clean_text (r (ascii ''Authors''))],
      [ascii ''Abstract: '' @ clean_text (r (ascii ''Abstract''))]]) rs"
  by (induction rs arbitrary: idx b)
    (simp_all add: sections_cards_Cons card_table_text del: cards_pure.simps(2))

lemma distinct_count_one: "distinct xs \<Longrightarrow> x \<in> set xs \<Longrightarrow> count_list xs x = 1"
  by (induction xs) (auto simp: count_list_0_iff)

lemma has_cols_required:
  "set required_cols \<subseteq> set cols \<Longrightarrow> distinct cols \<Longrightarrow> has_cols cols"
  by (simp add: required_cols_def has_cols_def distinct_count_one)

lemma book_contents_rows: "contents_rows (book rs t) = toc_pure rs 1"
  unfolding book_def by (rule contents_rows_doc)

lemma book_cards:
  "cards (book rs t) = sections (cards_pure rs 0 (length rs) t (1 + length rs))"
  unfolding book_def by (rule cards_doc)

lemma book_bookmark_names:
  "map snd (doc_bookmarks (book rs t)) =
     ascii ''TOC'' # map (\<lambda>r. ascii ''TOC_SUB_'' @ sid r) rs @
     map (\<lambda>r. ascii ''SUB_'' @ sid r) rs"
  unfolding book_def by (rule doc_bookmark_names)

lemma book_bookmark_ids:
  "map fst (doc_bookmarks (book rs t)) = [1 ..< 2 * length rs + 2]"
  unfolding book_def by (rule doc_bookmark_ids)

lemma mk_row_eval [simp]:
  "mk_row i t a b d (ascii ''Submission ID'') = i"
  "mk_row i t a b d (ascii ''Title'') = t"
  "mk_row i t a b d (ascii ''Authors'') = a"
  "mk_row i t a b d (ascii ''Abstract'') = b"
  "mk_row i t a b d (ascii ''Decision'') = d"
  by (simp_all add: mk_row_def ascii_def)

lemma int_eval:
  "digits 7 = ascii ''7''" "digits 8 = ascii ''8''" "digits 9 = ascii ''9''"
  by (simp_all add: digits.simps ascii_def)

lemma demo_sids: "map sid demo_rows = [ascii ''7'', ascii ''8'', ascii ''9'']"
  by (simp add: demo_rows_def sid_def int_eval)

lemma required_distinct: "distinct required_cols"
  by (simp add: required_cols_def ascii_def)

lemma demo_cols: "has_cols (columns demo_frame)" "set required_cols \<subseteq> set (columns demo_frame)"
  "distinct (columns demo_frame)"
  by (simp_all add: demo_frame_def has_cols_required required_distinct)

lemma cell_eval:
  "clean_text (PStr (ascii ''A  title'')) = ascii ''A title''"
  "clean_text (PStr (ascii ''X, Y'')) = ascii ''X, Y''"
  "clean_text (PStr (ascii ''B'')) = ascii ''B''"
  "clean_text (PStr (ascii ''C'')) = ascii ''C''"
  "clean_text (PStr (ascii ''A'')) = ascii ''A''"
  "clean_text (PStr (ascii ''abs'')) = ascii ''abs''"
  "clean_text (PStr (ascii ''text'')) = ascii ''text''"
  "clean_text PNaN = []"
  by (simp_all add: clean_text_def strip_def is_space_def ascii_def)

lemma safe_eval:
  "xml_safe (ascii ''7'')" "xml_safe (ascii ''8'')" "xml_safe (ascii ''9'')"
  "xml_safe (ascii ''A title'')" "xml_safe (ascii ''X, Y'')" "xml_safe (ascii ''A'')"
  "xml_safe (ascii ''B'')" "xml_safe (ascii ''C'')" "xml_safe (ascii ''abs'')"
  "xml_safe (ascii ''text'')" "xml_safe (ascii ''FAE'')"
  by (simp_all add: xml_safe_def xml_char_def ascii_def)

lemma demo_records: "records demo_frame = demo_rows"
  by (simp add: records_def demo_frame_def)

lemma demo_row_safe: "list_all row_safe demo_rows"
  by (simp add: demo_rows_def row_safe_def sid_def int_eval cell_eval safe_eval)

lemma demo_renderable: "renderable demo_frame (ascii ''FAE'')"
  using demo_row_safe demo_cols(1)
  by (simp add: renderable_def safe_eval demo_records floats_known_def) (simp add: demo_frame_def)

lemma run_text_FAE: "run_text (ascii ''FAE'') = ascii ''FAE''"
  by (simp add: run_text_def ascii_def)

text \<open>
  Claim C3. Every document that \<open>create_book_of_abstracts\<close> returns for a collection
  of records has exactly one contents row and exactly one abstract card per record, and
  both sequences are in the order of the records: the i-th contents row shows the
  identifier, title and authors of the i-th record, and the i-th card shows its
  identifier, the track, its title, authors and abstract. The records are the rows of
  the frame as \<open>iterrows\<close> hands them over, which are the rows themselves unless the
  frame is a \<open>float64\<close> frame. A document is returned for every renderable
  collection: each column that the renderer reads is present once, and the track label
  and the texts of the records hold only characters that the document tree can store.
\<close>
theorem one_row_and_one_card_per_record:
  "(renderable df track_title \<longrightarrow>
      (\<exists>doc. create_book_of_abstracts df track_title = Inr doc)) \<and>
   (\<forall>doc. create_book_of_abstracts df track_title = Inr doc \<longrightarrow>
      length (contents_rows doc) = length (rows df) \<and>
      length (cards doc) = length (rows df) \<and>
      map (map cell_text) (contents_rows doc) =
        map (\<lambda>r. [sid r, clean_text (r (ascii ''Title'')), clean_text (r (ascii ''Authors''))])
          (records df) \<and>
      map (\<lambda>(tbl, after). map (map cell_text) tbl) (cards doc) =
        map (\<lambda>r. [[ascii ''Submission ID: '' @ run_text (sid r),
                   ascii ''Track: '' @ run_text track_title],
                  [clean_text (r (ascii ''Title''))],
                  [clean_text (r (ascii ''Authors''))],
                  [ascii ''Abstract: '' @ clean_text (r (ascii ''Abstract''))]])
          (records df)) \<and>
   (values_dtype df \<noteq> Float64 \<longrightarrow> records df = rows df)"
proof (intro conjI impI allI)
  assume "renderable df track_title"
  then show "\<exists>doc. create_book_of_abstracts df track_title = Inr doc"
    using create_ok by blast
next
  assume "values_dtype df \<noteq> Float64"
  then show "records df = rows df" by (rule records_object)
next
  fix doc
  assume "create_book_of_abstracts df track_title = Inr doc"
  then have d: "doc = book (records df) track_title" by (simp add: create_iff)
  show "length (contents_rows doc) = length (rows df)"
    by (simp only: d book_contents_rows toc_pure_length length_records)
  show "length (cards doc) = length (rows df)"
    by (simp only: d book_cards sections_cards_length length_records)
  show "map (map cell_text) (contents_rows doc) =
        map (\<lambda>r. [sid r, clean_text (r (ascii ''Title'')), clean_text (r (ascii ''Authors''))])
          (records df)"
    by (simp only: d book_contents_rows toc_pure_text)
  show "map (\<lambda>(tbl, after). map (map cell_text) tbl) (cards doc) =
        map (\<lambda>r. [[ascii ''Submission ID: '' @ run_text (sid r),
                   ascii ''Track: '' @ run_text track_title],
                  [clean_text (r (ascii ''Title''))],
                  [clean_text (r (ascii ''Authors''))],
                  [ascii ''Abstract: '' @ clean_text (r (ascii ''Abstract''))]])
          (records df)"
    by (simp only: d book_cards sections_cards_text)
qed

theorem one_row_and_one_card_per_record_witness:
  "\<exists>doc. create_book_of_abstracts demo_frame (ascii ''FAE'') = Inr doc \<and>
     length (contents_rows doc) = 3 \<and> length (cards doc) = 3 \<and>
     map (map cell_text) (contents_rows doc) =
       [[ascii ''7'', ascii ''A title'', ascii ''X, Y''],
        [ascii ''8'', ascii ''B'', []],
        [ascii ''9'', ascii ''C'', []]]"
proof -
  note t = one_row_and_one_card_per_record [of demo_frame "ascii ''FAE''"]
  from t [THEN conjunct1, THEN mp, OF demo_renderable]
  obtain doc where d: "create_book_of_abstracts demo_frame (ascii ''FAE'') = Inr doc" ..
  from t [THEN conjunct2, THEN conjunct1, THEN spec, THEN mp, OF d]
  have l: "length (contents_rows doc) = length (rows demo_frame)"
    "length (cards doc) = length (rows demo_frame)"
    and x: "map (map cell_text) (contents_rows doc) =
       map (\<lambda>r. [sid r, clean_text (r (ascii ''Title'')), clean_text (r (ascii ''Authors''))])
         (records demo_frame)"
    by blast+
  have "map (\<lambda>r. [sid r, clean_text (r (ascii ''Title'')), clean_text (r (ascii ''Authors''))])
         (records demo_frame) =
       [[ascii ''7'', ascii ''A title'', ascii ''X, Y''],
        [ascii ''8'', ascii ''B'', []],
        [ascii ''9'', ascii ''C'', []]]"
    by (simp add: demo_records demo_rows_def sid_def int_eval cell_eval)
  with d l x show ?thesis by (simp add: demo_frame_def demo_rows_def)
qed

text \<open>
  Claim C10. In every document that \<open>create_book_of_abstracts\<close> returns, the
  bookmarks in document order (the contents heading, the contents rows, the cards) carry
  the ids 1, 2, ..., 2n+1 for n records; no id repeats. A document is returned for every
  renderable collection.
\<close>
theorem bookmark_ids_count_up:
  "(renderable df track_title \<longrightarrow>
      (\<exists>doc. create_book_of_abstracts df track_title = Inr doc)) \<and>
   (\<forall>doc. create_book_of_abstracts df track_title = Inr doc \<longrightarrow>
      map fst (doc_bookmarks doc) = [1 ..< 2 * length (rows df) + 2] \<and>
      distinct (map fst (doc_bookmarks doc)))"
proof (intro conjI impI allI)
  assume "renderable df track_title"
  then show "\<exists>doc. create_book_of_abstracts df track_title = Inr doc"
    using create_ok by blast
next
  fix doc
  assume "create_book_of_abstracts df track_title = Inr doc"
  then have d: "doc = book (records df) track_title" by (simp add: create_iff)
  show "map fst (doc_bookmarks doc) = [1 ..< 2 * length (rows df) + 2]"
    by (simp only: d book_bookmark_ids length_records)
  then show "distinct (map fst (doc_bookmarks doc))"
    by (simp only: distinct_upt)
qed

theorem bookmark_ids_count_up_witness:
  "\<exists>doc. create_book_of_abstracts demo_frame (ascii ''FAE'') = Inr doc \<and>
     map fst (doc_bookmarks doc) = [1, 2, 3, 4, 5, 6, 7]"
proof -
  note t = bookmark_ids_count_up [of demo_frame "ascii ''FAE''"]
  from t [THEN conjunct1, THEN mp, OF demo_renderable]
  obtain doc where d: "create_book_of_abstracts demo_frame (ascii ''FAE'') = Inr doc" ..
  from t [THEN conjunct2, THEN spec, THEN mp, OF d]
  have a: "map fst (doc_bookmarks doc) = [1 ..< 2 * length (rows demo_frame) + 2]" by blast
  have e: "[1 ..< 2 * length (rows demo_frame) + 2] = [1, 2, 3, 4, 5, 6, 7::nat]"
    by (simp add: demo_frame_def demo_rows_def upt_rec)
  from a have f: "map fst (doc_bookmarks doc) = [1, 2, 3, 4, 5, 6, 7]" by (simp only: e)
  show ?thesis by (rule exI [of _ doc]) (rule conjI [OF d f])
qed

text \<open>
  In a frame whose columns are all numeric, with integer identifiers and no texts, the
  identifier 7 is rendered as \<open>7.0\<close>.
\<close>
lemma float_frame_identifier:
  "\<exists>doc. create_book_of_abstracts numeric_frame (ascii ''FAE'') = Inr doc \<and>
     map (map cell_text) (contents_rows doc) = [[ascii ''7.0'', [], []]] \<and>
     map snd (doc_bookmarks doc) = [ascii ''TOC'', ascii ''TOC_SUB_7.0'', ascii ''SUB_7.0'']"
proof -
  let ?r = "\<lambda>k. as_float (mk_row (PInt 7) PNaN PNaN PNaN PNaN k)"
  have rc: "records numeric_frame = [?r]" by (simp add: records_def numeric_frame_def)
  have "sid ?r = ascii ''7'' @ ascii ''.0''" by (simp add: sid_def int_eval)
  then have s: "sid ?r = ascii ''7.0''" by (simp add: ascii_def)
  have c: "clean_text (?r (ascii ''Title'')) = []" "clean_text (?r (ascii ''Authors'')) = []"
    "clean_text (?r (ascii ''Abstract'')) = []"
    by (simp_all add: cell_eval)
  have x: "xml_safe (ascii ''7.0'')" by (simp add: xml_safe_def xml_char_def ascii_def)
  have h: "has_cols (columns numeric_frame)"
    by (simp add: numeric_frame_def has_cols_def ascii_def)
  have f: "floats_known numeric_frame" by (simp add: floats_known_def numeric_frame_def)
  have "renderable numeric_frame (ascii ''FAE'')"
    using h f by (simp add: renderable_def rc row_safe_def s c x safe_eval cell_eval)
  then have "create_book_of_abstracts numeric_frame (ascii ''FAE'') =
      Inr (book (records numeric_frame) (ascii ''FAE''))"
    by (rule create_ok)
  moreover have "map (map cell_text) (contents_rows (book (records numeric_frame) (ascii ''FAE''))) =
      [[ascii ''7.0'', [], []]]"
    by (simp only: book_contents_rows toc_pure_text rc) (simp add: s c cell_eval)
  moreover have "map snd (doc_bookmarks (book (records numeric_frame) (ascii ''FAE''))) =
      [ascii ''TOC'', ascii ''TOC_SUB_7.0'', ascii ''SUB_7.0'']"
    by (simp only: book_bookmark_names rc) (simp add: s ascii_def)
  ultimately show ?thesis by simp
qed

text \<open>
  Claim C2. In every document that \<open>create_book_of_abstracts\<close> returns, for the i-th
  record of the collection, the card carries a bookmark named \<open>SUB_\<close> followed by the
  identifier; each of the three cells of the contents row (identifier, title, authors)
  holds a hyperlink whose anchor is that name; the contents row carries a bookmark named
  \<open>TOC_SUB_\<close> followed by the identifier; and the paragraph after the card holds the
  "back to contents" hyperlink, whose anchor is that second name and not the name
  \<open>TOC\<close> of the contents heading. When the identifiers of the collection are
  distinct, all bookmark names of the document are distinct, so each anchor denotes
  exactly one bookmark: the row leads to its card and the card back to its row. A
  document is returned for every renderable collection.
\<close>
theorem anchors_link_row_and_card:
  "(renderable df track_title \<longrightarrow>
      (\<exists>doc. create_book_of_abstracts df track_title = Inr doc)) \<and>
   (\<forall>doc. create_book_of_abstracts df track_title = Inr doc \<longrightarrow> i < length (rows df) \<longrightarrow>
      i < length (contents_rows doc) \<and> i < length (cards doc) \<and>
      map snd (table_bookmarks (fst (cards doc ! i))) = [ascii ''SUB_'' @ sid (records df ! i)] \<and>
      map (map fst) (map cell_links (contents_rows doc ! i)) =
        replicate 3 [ascii ''SUB_'' @ sid (records df ! i)] \<and>
      map snd (row_bookmarks (contents_rows doc ! i)) =
        [ascii ''TOC_SUB_'' @ sid (records df ! i)] \<and>
      concat (map block_links (snd (cards doc ! i))) =
        [(ascii ''TOC_SUB_'' @ sid (records df ! i), back_text)] \<and>
      ascii ''TOC_SUB_'' @ sid (records df ! i) \<noteq> ascii ''TOC'' \<and>
      (distinct (map sid (records df)) \<longrightarrow> distinct (map snd (doc_bookmarks doc))))"
proof (intro conjI impI allI)
  assume "renderable df track_title"
  then show "\<exists>doc. create_book_of_abstracts df track_title = Inr doc"
    using create_ok by blast
next
  fix doc
  assume c: "create_book_of_abstracts df track_title = Inr doc" and i0: "i < length (rows df)"
  let ?rs = "records df"
  let ?n = "length ?rs"
  let ?secs = "sections (cards_pure ?rs 0 ?n track_title (1 + ?n))"
  from i0 have i: "i < length ?rs" by simp
  from c have d: "doc = book (records df) track_title" by (simp add: create_iff)
  have rows: "contents_rows doc = toc_pure ?rs 1" by (simp only: d book_contents_rows)
  have crds: "cards doc = ?secs" by (simp only: d book_cards)
  show "i < length (contents_rows doc)" using i by (simp only: rows toc_pure_length)
  show "i < length (cards doc)" using i by (simp only: crds sections_cards_length)
  have a: "(\<lambda>(tbl, after). (map snd (table_bookmarks tbl), concat (map block_links after)))
        (?secs ! i) =
      ([ascii ''SUB_'' @ sid (?rs ! i)], [(ascii ''TOC_SUB_'' @ sid (?rs ! i), back_text)])"
    using nth_map_eq [OF sections_cards_anchors i] .
  from a show "map snd (table_bookmarks (fst (cards doc ! i))) =
      [ascii ''SUB_'' @ sid (records df ! i)]"
    by (simp add: crds case_prod_beta)
  from a show "concat (map block_links (snd (cards doc ! i))) =
      [(ascii ''TOC_SUB_'' @ sid (records df ! i), back_text)]"
    by (simp add: crds case_prod_beta)
  have links: "map cell_links (toc_pure ?rs 1 ! i) =
      [[(ascii ''SUB_'' @ sid (?rs ! i), sid (?rs ! i))],
       [(ascii ''SUB_'' @ sid (?rs ! i), clean_text ((?rs ! i) (ascii ''Title'')))],
       [(ascii ''SUB_'' @ sid (?rs ! i), clean_text ((?rs ! i) (ascii ''Authors'')))]]"
    using nth_map_eq [OF toc_pure_links i] .
  show "map (map fst) (map cell_links (contents_rows doc ! i)) =
      replicate 3 [ascii ''SUB_'' @ sid (records df ! i)]"
    by (simp only: rows links) (simp add: numeral_3_eq_3)
  show "map snd (row_bookmarks (contents_rows doc ! i)) =
      [ascii ''TOC_SUB_'' @ sid (records df ! i)]"
    using nth_map_eq [OF toc_pure_row_bookmarks i] by (simp only: rows)
  show "ascii ''TOC_SUB_'' @ sid (records df ! i) \<noteq> ascii ''TOC''"
    by (rule prefix_facts(3))
  assume "distinct (map sid (records df))"
  then show "distinct (map snd (doc_bookmarks doc))"
    by (simp only: d book_bookmark_names) (rule names_distinct)
qed

theorem anchors_link_row_and_card_witness:
  "\<exists>doc. create_book_of_abstracts demo_frame (ascii ''FAE'') = Inr doc \<and>
     map snd (table_bookmarks (fst (cards doc ! 2))) = [ascii ''SUB_9''] \<and>
     map snd (row_bookmarks (contents_rows doc ! 2)) = [ascii ''TOC_SUB_9''] \<and>
     map fst (concat (map block_links (snd (cards doc ! 2)))) = [ascii ''TOC_SUB_9''] \<and>
     distinct (map snd (doc_bookmarks doc))"
proof -
  note t = anchors_link_row_and_card [of demo_frame "ascii ''FAE''" 2]
  from t [THEN conjunct1, THEN mp, OF demo_renderable]
  obtain doc where d: "create_book_of_abstracts demo_frame (ascii ''FAE'') = Inr doc" ..
  have i: "2 < length (rows demo_frame)" by (simp add: demo_frame_def demo_rows_def)
  have s: "sid (records demo_frame ! 2) = ascii ''9''"
    using demo_sids by (simp add: demo_records demo_rows_def)
  have ds: "distinct (map sid (records demo_frame))"
    using demo_sids by (simp add: demo_records ascii_def)
  from t [THEN conjunct2, THEN spec, THEN mp, OF d, THEN mp, OF i] s ds
  have "map snd (table_bookmarks (fst (cards doc ! 2))) = [ascii ''SUB_'' @ ascii ''9'']"
    and "map snd (row_bookmarks (contents_rows doc ! 2)) = [ascii ''TOC_SUB_'' @ ascii ''9'']"
    and "concat (map block_links (snd (cards doc ! 2))) =
      [(ascii ''TOC_SUB_'' @ ascii ''9'', back_text)]"
    and "distinct (map snd (doc_bookmarks doc))"
    by simp_all
  with d show ?thesis by (intro exI [of _ doc]) (simp add: ascii_def)
qed

lemma bad_dup_toc_row:
  "toc_row (required_cols, mk_row (PInt 7) (PStr [97, 1, 98]) PNaN PNaN d) b = Inl ValueError"
proof -
  have "clean_text (PStr [97, 1, 98]) = [97, 1, 98]"
    by (simp add: clean_text_def strip_def is_space_def)
  moreover have "\<not> xml_safe [97, 1, 98]" by (simp add: xml_safe_def xml_char_def)
  moreover have "count_list required_cols (ascii ''Submission ID'') = 1"
    "count_list required_cols (ascii ''Title'') = 1"
    "count_list required_cols (ascii ''Authors'') = 1"
    by (simp_all add: required_cols_def ascii_def)
  ultimately show ?thesis
    by (simp add: toc_row_def getitem_Cell ebind_def add_hyperlink_def add_bookmark_def
        next_bid_def int_eval safe_eval cell_eval del: getitem.simps)
qed

text \<open>
  Duplicate identifiers do not by themselves make generation complete. In
  \<open>bad_dup_frame\<close> both records have the identifier 7 and the first title holds the
  control character U+0001, which \<open>clean_text\<close> leaves in place; the renderer raises
  \<open>ValueError\<close> when it stores that title in the contents row.
\<close>
theorem duplicate_identifiers_can_fail:
  "sid (records bad_dup_frame ! 0) = sid (records bad_dup_frame ! 1) \<and>
   length (rows bad_dup_frame) = 2 \<and>
   has_cols (columns bad_dup_frame) \<and>
   create_book_of_abstracts bad_dup_frame (ascii ''FAE'') = Inl ValueError"
proof -
  have "title_page (ascii ''FAE'') = Inr (title_blocks (ascii ''FAE''))"
    by (rule title_page_ok) (rule safe_eval)
  moreover have "add_run (ascii ''Table of Contents'') =
      Inr (Run [Text (ascii ''Table of Contents'')])"
    by (simp add: add_run_def)
  moreover have "add_bookmark [Run [Text (ascii ''Table of Contents'')]] (ascii ''TOC'') (Suc 0) =
      Inr [Run [BookmarkStart (Suc 0) (ascii ''TOC''), Text (ascii ''Table of Contents''),
        BookmarkEnd (Suc 0)]]"
    by (simp add: add_bookmark_def)
  moreover have "toc_row (required_cols, mk_row (PInt 7) (PStr [97, Suc 0, 98]) PNaN PNaN
      (PStr (ascii ''Oral Presentation''))) (Suc 0) = Inl ValueError"
    using bad_dup_toc_row [of "PStr (ascii ''Oral Presentation'')" 1] by simp
  ultimately have "create_book_of_abstracts bad_dup_frame (ascii ''FAE'') = Inl ValueError"
    by (simp add: create_book_of_abstracts_def iterrows_def bad_dup_frame_def header_row_eq
        ebind_def next_bid_def)
  moreover have "has_cols (columns bad_dup_frame)"
    by (simp add: bad_dup_frame_def has_cols_required required_distinct)
  ultimately show ?thesis by (simp add: bad_dup_frame_def sid_def records_def)
qed

text \<open>
  Claim C8, for renderable collections. When two records of a renderable collection have
  the same identifier, generation returns a document with one contents row and one card
  per record; the names \<open>SUB_\<close> and \<open>TOC_SUB_\<close> of that identifier are each
  emitted at least twice, so the bookmark names of the document are not distinct.
\<close>
theorem duplicate_identifiers_collide:
  assumes "renderable df track_title" and "i < j" and "j < length (rows df)"
    and "sid (records df ! i) = sid (records df ! j)"
  shows "\<exists>doc. create_book_of_abstracts df track_title = Inr doc \<and>
     length (contents_rows doc) = length (rows df) \<and>
     length (cards doc) = length (rows df) \<and>
     2 \<le> count_list (map snd (doc_bookmarks doc)) (ascii ''SUB_'' @ sid (records df ! i)) \<and>
     2 \<le> count_list (map snd (doc_bookmarks doc)) (ascii ''TOC_SUB_'' @ sid (records df ! i)) \<and>
     \<not> distinct (map snd (doc_bookmarks doc))"
proof -
  let ?rs = "records df"
  let ?doc = "book (records df) track_title"
  let ?names = "ascii ''TOC'' # map (\<lambda>r. ascii ''TOC_SUB_'' @ sid r) ?rs @
      map (\<lambda>r. ascii ''SUB_'' @ sid r) ?rs"
  have c: "create_book_of_abstracts df track_title = Inr ?doc"
    by (rule create_ok [OF assms(1)])
  have n: "map snd (doc_bookmarks ?doc) = ?names" by (rule book_bookmark_names)
  have s: "2 \<le> count_list (map (\<lambda>r. ascii ''SUB_'' @ sid r) ?rs) (ascii ''SUB_'' @ sid (?rs ! i))"
    using count_twice_map [of i j ?rs "\<lambda>r. ascii ''SUB_'' @ sid r"] assms by simp
  have t: "2 \<le> count_list (map (\<lambda>r. ascii ''TOC_SUB_'' @ sid r) ?rs)
      (ascii ''TOC_SUB_'' @ sid (?rs ! i))"
    using count_twice_map [of i j ?rs "\<lambda>r. ascii ''TOC_SUB_'' @ sid r"] assms by simp
  have s': "2 \<le> count_list ?names (ascii ''SUB_'' @ sid (?rs ! i))"
    using s by (simp add: prefix_facts)
  have t': "2 \<le> count_list ?names (ascii ''TOC_SUB_'' @ sid (?rs ! i))"
    using t by (simp add: prefix_facts)
  have nd: "\<not> distinct ?names"
  proof
    assume "distinct ?names"
    then have "distinct (map (\<lambda>r. ascii ''SUB_'' @ sid r) ?rs)" by simp
    then have "count_list (map (\<lambda>r. ascii ''SUB_'' @ sid r) ?rs) (ascii ''SUB_'' @ sid (?rs ! i)) \<le> 1"
      by (rule distinct_count_le1)
    with s show False by simp
  qed
  show ?thesis
    using s' t' nd
    by (simp only: c sum.inject simp_thms ex_simps book_contents_rows book_cards toc_pure_length
        sections_cards_length n length_records)
qed

theorem duplicate_identifiers_collide_witness:
  "\<exists>doc. create_book_of_abstracts dup_frame (ascii ''FAE'') = Inr doc \<and>
     length (contents_rows doc) = 2 \<and> length (cards doc) = 2 \<and>
     2 \<le> count_list (map snd (doc_bookmarks doc)) (ascii ''SUB_7'') \<and>
     \<not> distinct (map snd (doc_bookmarks doc))"
proof -
  have c: "has_cols (columns dup_frame)"
    by (simp add: dup_frame_def has_cols_required required_distinct)
  have rc: "records dup_frame = rows dup_frame" by (simp add: records_def dup_frame_def)
  have "list_all row_safe (rows dup_frame)"
    by (simp add: dup_frame_def row_safe_def sid_def int_eval cell_eval safe_eval)
  with c have r: "renderable dup_frame (ascii ''FAE'')"
    by (simp add: renderable_def safe_eval rc floats_known_def) (simp add: dup_frame_def)
  have j: "1 < length (rows dup_frame)" by (simp add: dup_frame_def)
  have s: "sid (records dup_frame ! 0) = ascii ''7''" "sid (records dup_frame ! 1) = ascii ''7''"
    by (simp_all add: rc) (simp_all add: dup_frame_def sid_def int_eval)
  have e: "sid (records dup_frame ! 0) = sid (records dup_frame ! 1)" using s by simp
  have l: "length (rows dup_frame) = 2" by (simp add: dup_frame_def)
  from duplicate_identifiers_collide [OF r _ j e] s l
  show ?thesis by (auto simp: ascii_def)
qed

section \<open>The command-line tool\<close>

lemma missing_empty_iff:
  "filter (\<lambda>col. col \<notin> set cols) required_cols = [] \<longleftrightarrow> set required_cols \<subseteq> set cols"
  by (auto simp: filter_empty_conv)

lemma main_missing:
  assumes "parse_args argv = (i, out, t)" and "read_excel i = Frame df"
    and "\<not> set required_cols \<subseteq> set (columns df)"
  shows "main argv read_excel save =
     \<lparr>stdout = banner i out t @
        [[S (ascii ''ERROR: Missing required columns: ''),
          Repr (filter (\<lambda>col. col \<notin> set (columns df)) required_cols)],
         [S (ascii ''Available columns: ''), Repr (columns df)]],
      status = SysExit 1, saved = None\<rparr>"
  using assms by (simp add: main_def missing_empty_iff Let_def)

lemma main_empty:
  assumes "parse_args argv = (i, out, t)" and "read_excel i = Frame df"
    and "set required_cols \<subseteq> set (columns df)" and "filter is_oral (rows df) = []"
  shows "main argv read_excel save =
     \<lparr>stdout = banner i out t @
        [[S (ascii ''Found ''), Len 0, S (ascii '' Oral Presentations'')],
         [S (ascii ''ERROR: No oral presentations found in the data.'')]],
      status = SysExit 1, saved = None\<rparr>"
  using assms by (simp add: main_def missing_empty_iff Let_def)

lemma main_drop:
  assumes "read_excel (fst (parse_args argv)) = Frame df"
  shows "main argv read_excel save =
     main argv (\<lambda>p. Frame (df\<lparr>rows := filter is_oral (rows df)\<rparr>)) save"
proof -
  obtain i out t where p: "parse_args argv = (i, out, t)" by (cases "parse_args argv")
  with assms have r: "read_excel i = Frame df" by simp
  show ?thesis by (simp add: main_def p r Let_def)
qed

lemma is_oral_eq: "is_oral = (\<lambda>r. r (ascii ''Decision'') = PStr (ascii ''Oral Presentation''))"
  by (rule ext) (simp add: is_oral_def)

lemma poster_ne: "ascii ''Poster'' \<noteq> ascii ''Oral Presentation''"
  by (simp add: ascii_def)

lemma demo_oral:
  "filter (\<lambda>r. r (ascii ''Decision'') = PStr (ascii ''Oral Presentation'')) demo_rows =
     [demo_rows ! 0, demo_rows ! 2]"
  by (simp add: demo_rows_def poster_ne)

lemma default_args:
  "parse_args [] =
     (ascii ''IMRC2025_submissions.xlsx'', ascii ''IMRC2025_Book_of_Abstracts.docx'', ascii ''FAE'')"
  by (simp add: parse_args_def)

text \<open>
  Claim C9. The three positional arguments are the input path, the output path and the
  track label, in this order; an argument that is present replaces its own default and
  no other, and an absent one leaves the default \<open>IMRC2025_submissions.xlsx\<close>,
  \<open>IMRC2025_Book_of_Abstracts.docx\<close> or \<open>FAE\<close>.
\<close>
theorem command_line_defaults:
  "parse_args argv =
     (if 1 < length argv then argv ! 1 else ascii ''IMRC2025_submissions.xlsx'',
      if 2 < length argv then argv ! 2 else ascii ''IMRC2025_Book_of_Abstracts.docx'',
      if 3 < length argv then argv ! 3 else ascii ''FAE'')"
  by (simp add: parse_args_def Let_def numeral_2_eq_2 numeral_3_eq_3 le_simps)

theorem command_line_defaults_witness:
  "parse_args [ascii ''prog'', ascii ''in.xlsx''] =
     (ascii ''in.xlsx'', ascii ''IMRC2025_Book_of_Abstracts.docx'', ascii ''FAE'')"
  using command_line_defaults [of "[ascii ''prog'', ascii ''in.xlsx'']"] by simp

lemma main_render:
  assumes "parse_args argv = (i, out, t)" and "read_excel i = Frame df"
    and "set required_cols \<subseteq> set (columns df)" and "filter is_oral (rows df) \<noteq> []"
    and "create_book_of_abstracts (df\<lparr>rows := filter is_oral (rows df)\<rparr>) t = Inr doc"
    and "save out doc = Saved"
  shows "status (main argv read_excel save) = Returned \<and>
     saved (main argv read_excel save) = Some (out, doc)"
  using assms by (simp add: main_def missing_empty_iff Let_def)

lemma main_saved:
  assumes "parse_args argv = (i, out, t)" and "read_excel i = Frame df"
    and "saved (main argv read_excel save) = Some (out', doc)"
  shows "create_book_of_abstracts (df\<lparr>rows := filter is_oral (rows df)\<rparr>) t = Inr doc \<and>
     status (main argv read_excel save) = Returned"
  using assms
  by (simp add: main_def Let_def split: if_splits sum.splits save_result.splits)

lemma created_texts:
  assumes "create_book_of_abstracts df t = Inr doc"
  shows "map (map cell_text) (contents_rows doc) =
        map (\<lambda>r. [sid r, clean_text (r (ascii ''Title'')), clean_text (r (ascii ''Authors''))])
          (records df) \<and>
      map (\<lambda>(tbl, after). map (map cell_text) tbl) (cards doc) =
        map (\<lambda>r. [[ascii ''Submission ID: '' @ run_text (sid r), ascii ''Track: '' @ run_text t],
                  [clean_text (r (ascii ''Title''))],
                  [clean_text (r (ascii ''Authors''))],
                  [ascii ''Abstract: '' @ clean_text (r (ascii ''Abstract''))]])
          (records df)"
proof -
  from assms have d: "doc = book (records df) t" by (simp add: create_iff)
  show ?thesis
    by (simp only: d book_contents_rows toc_pure_text book_cards sections_cards_text simp_thms)
qed

text \<open>
  Claim C1. A row is rendered if and only if its decision is the string
  \<open>Oral Presentation\<close>. Rows with any other decision are dropped silently: the whole
  outcome of the tool (output, exit status, file) is what it is for the table without
  them, whatever they hold. Every document that the tool saves has one contents row and
  one card for each qualifying row, in order, and for no other row. When the required
  columns are present, some row qualifies and the table of the qualifying rows is
  renderable, the document is built, and if the file can be written the tool ends
  normally with that document saved.
\<close>
theorem only_oral_rows_are_rendered:
  assumes "read_excel (fst (parse_args argv)) = Frame df"
  shows "main argv read_excel save =
       main argv (\<lambda>p. Frame (df\<lparr>rows :=
         filter (\<lambda>r. r (ascii ''Decision'') = PStr (ascii ''Oral Presentation'')) (rows df)\<rparr>)) save \<and>
     (\<forall>out doc. saved (main argv read_excel save) = Some (out, doc) \<longrightarrow>
        status (main argv read_excel save) = Returned \<and>
        map (map cell_text) (contents_rows doc) =
          map (\<lambda>r. [sid r, clean_text (r (ascii ''Title'')), clean_text (r (ascii ''Authors''))])
            (records (df\<lparr>rows :=
               filter (\<lambda>r. r (ascii ''Decision'') = PStr (ascii ''Oral Presentation''))
                 (rows df)\<rparr>)) \<and>
        map (\<lambda>(tbl, after). map (map cell_text) tbl) (cards doc) =
          map (\<lambda>r. [[ascii ''Submission ID: '' @ run_text (sid r),
                     ascii ''Track: '' @ run_text (snd (snd (parse_args argv)))],
                    [clean_text (r (ascii ''Title''))],
                    [clean_text (r (ascii ''Authors''))],
                    [ascii ''Abstract: '' @ clean_text (r (ascii ''Abstract''))]])
            (records (df\<lparr>rows :=
               filter (\<lambda>r. r (ascii ''Decision'') = PStr (ascii ''Oral Presentation''))
                 (rows df)\<rparr>))) \<and>
     (set required_cols \<subseteq> set (columns df) \<longrightarrow>
      (\<exists>r\<in>set (rows df). r (ascii ''Decision'') = PStr (ascii ''Oral Presentation'')) \<longrightarrow>
      renderable
        (df\<lparr>rows := filter (\<lambda>r. r (ascii ''Decision'') = PStr (ascii ''Oral Presentation''))
           (rows df)\<rparr>) (snd (snd (parse_args argv))) \<longrightarrow>
      (\<exists>doc. create_book_of_abstracts
           (df\<lparr>rows := filter (\<lambda>r. r (ascii ''Decision'') = PStr (ascii ''Oral Presentation''))
              (rows df)\<rparr>) (snd (snd (parse_args argv))) = Inr doc \<and>
         (save (fst (snd (parse_args argv))) doc = Saved \<longrightarrow>
            status (main argv read_excel save) = Returned \<and>
            saved (main argv read_excel save) = Some (fst (snd (parse_args argv)), doc))))"
proof -
  obtain i out t where p: "parse_args argv = (i, out, t)" by (cases "parse_args argv")
  with assms have r: "read_excel i = Frame df" by simp
  let ?oral = "df\<lparr>rows := filter is_oral (rows df)\<rparr>"
  have a: "main argv read_excel save = main argv (\<lambda>p. Frame ?oral) save"
    by (rule main_drop [of read_excel argv df save, OF assms])
  have b: "status (main argv read_excel save) = Returned \<and>
      map (map cell_text) (contents_rows doc) =
        map (\<lambda>r. [sid r, clean_text (r (ascii ''Title'')), clean_text (r (ascii ''Authors''))])
          (records ?oral) \<and>
      map (\<lambda>(tbl, after). map (map cell_text) tbl) (cards doc) =
        map (\<lambda>r. [[ascii ''Submission ID: '' @ run_text (sid r), ascii ''Track: '' @ run_text t],
                  [clean_text (r (ascii ''Title''))],
                  [clean_text (r (ascii ''Authors''))],
                  [ascii ''Abstract: '' @ clean_text (r (ascii ''Abstract''))]])
          (records ?oral)"
    if s: "saved (main argv read_excel save) = Some (out', doc)" for out' doc
  proof -
    note m = main_saved [of argv i out t read_excel df save out' doc, OF p r s]
    from created_texts [OF m [THEN conjunct1]] m [THEN conjunct2]
    show ?thesis by simp
  qed
  have c: "\<exists>doc. create_book_of_abstracts ?oral t = Inr doc \<and>
      (save out doc = Saved \<longrightarrow>
         status (main argv read_excel save) = Returned \<and>
         saved (main argv read_excel save) = Some (out, doc))"
    if cols: "set required_cols \<subseteq> set (columns df)"
      and ex: "\<exists>r\<in>set (rows df). is_oral r" and rn: "renderable ?oral t"
  proof -
    let ?doc = "book (records ?oral) t"
    have cr: "create_book_of_abstracts ?oral t = Inr ?doc" by (rule create_ok [OF rn])
    have ne: "filter is_oral (rows df) \<noteq> []" using ex by (simp add: filter_empty_conv)
    have "save out ?doc = Saved \<longrightarrow>
        status (main argv read_excel save) = Returned \<and>
        saved (main argv read_excel save) = Some (out, ?doc)"
      using main_render [of argv i out t read_excel df _ save, OF p r cols ne cr] by blast
    with cr show ?thesis by (intro exI [of _ ?doc] conjI)
  qed
  from a b c show ?thesis unfolding p is_oral_eq fst_conv snd_conv by blast
qed

theorem only_oral_rows_are_rendered_witness:
  "\<exists>doc. saved (main [] (\<lambda>p. Frame demo_frame) (\<lambda>p d. Saved)) =
       Some (ascii ''IMRC2025_Book_of_Abstracts.docx'', doc) \<and>
     status (main [] (\<lambda>p. Frame demo_frame) (\<lambda>p d. Saved)) = Returned \<and>
     map (map cell_text) (contents_rows doc) =
       [[ascii ''7'', ascii ''A title'', ascii ''X, Y''], [ascii ''9'', ascii ''C'', []]]"
proof -
  let ?oral = "demo_frame\<lparr>rows :=
      filter (\<lambda>r. r (ascii ''Decision'') = PStr (ascii ''Oral Presentation''))
        (rows demo_frame)\<rparr>"
  have ex: "\<exists>r\<in>set (rows demo_frame).
      r (ascii ''Decision'') = PStr (ascii ''Oral Presentation'')"
    by (simp add: demo_frame_def demo_rows_def)
  have s: "sid (demo_rows ! 0) = ascii ''7''" "sid (demo_rows ! 2) = ascii ''9''"
    using demo_sids by (simp_all add: demo_rows_def)
  have v: "map (\<lambda>r. [sid r, clean_text (r (ascii ''Title'')), clean_text (r (ascii ''Authors''))])
        [demo_rows ! 0, demo_rows ! 2] =
      [[ascii ''7'', ascii ''A title'', ascii ''X, Y''], [ascii ''9'', ascii ''C'', []]]"
    using s cell_eval by (simp add: demo_rows_def)
  have r: "rows demo_frame = demo_rows" by (simp add: demo_frame_def)
  have ro: "records ?oral = [demo_rows ! 0, demo_rows ! 2]"
    by (simp only: r demo_oral) (simp add: records_def demo_frame_def)
  have rd: "(\<lambda>p. Frame demo_frame) (fst (parse_args [])) = Frame demo_frame" by simp
  have sf: "list_all row_safe [demo_rows ! 0, demo_rows ! 2]"
    using demo_row_safe by (simp add: demo_rows_def)
  have rn: "renderable ?oral (snd (snd (parse_args [])))"
    using sf demo_cols(1)
    by (simp add: renderable_def ro default_args safe_eval floats_known_def)
      (simp add: demo_frame_def)
  note t = only_oral_rows_are_rendered [where read_excel = "\<lambda>p. Frame demo_frame"
      and argv = "[]" and df = demo_frame and save = "\<lambda>p d. Saved", OF rd]
  from t [THEN conjunct2, THEN conjunct2, THEN mp, OF demo_cols(2), THEN mp, OF ex,
      THEN mp, OF rn]
  obtain doc where m: "(\<lambda>p d. Saved) (fst (snd (parse_args []))) doc = Saved \<longrightarrow>
      status (main [] (\<lambda>p. Frame demo_frame) (\<lambda>p d. Saved)) = Returned \<and>
      saved (main [] (\<lambda>p. Frame demo_frame) (\<lambda>p d. Saved)) =
        Some (fst (snd (parse_args [])), doc)"
    by (elim exE conjE)
  from m have st: "status (main [] (\<lambda>p. Frame demo_frame) (\<lambda>p d. Saved)) = Returned"
    and sv: "saved (main [] (\<lambda>p. Frame demo_frame) (\<lambda>p d. Saved)) =
        Some (ascii ''IMRC2025_Book_of_Abstracts.docx'', doc)"
    by (simp_all only: simp_thms default_args fst_conv snd_conv)
  from t [THEN conjunct2, THEN conjunct1, THEN spec, THEN spec, THEN mp, OF sv]
  have "map (map cell_text) (contents_rows doc) =
      map (\<lambda>r. [sid r, clean_text (r (ascii ''Title'')), clean_text (r (ascii ''Authors''))])
        (records ?oral)"
    by (elim conjE)
  then have "map (map cell_text) (contents_rows doc) =
       [[ascii ''7'', ascii ''A title'', ascii ''X, Y''], [ascii ''9'', ascii ''C'', []]]"
    by (simp only: ro v)
  with st sv show ?thesis by (intro exI [of _ doc] conjI)
qed

text \<open>
  Claim C6. When a required column is missing from the table, the tool prints the error
  line listing exactly the required columns that are missing (then the available
  columns), exits with status 1 and writes no file; nothing after the column check runs,
  so no "Generating" line is printed and no document is built.
\<close>
theorem missing_columns_abort:
  assumes "read_excel (fst (parse_args argv)) = Frame df"
    and "\<not> set required_cols \<subseteq> set (columns df)"
  shows "stdout (main argv read_excel save) =
       (case parse_args argv of (i, out, t) \<Rightarrow> banner i out t) @
       [[S (ascii ''ERROR: Missing required columns: ''),
         Repr (filter (\<lambda>col. col \<notin> set (columns df)) required_cols)],
        [S (ascii ''Available columns: ''), Repr (columns df)]] \<and>
     set (filter (\<lambda>col. col \<notin> set (columns df)) required_cols) =
       set required_cols - set (columns df) \<and>
     filter (\<lambda>col. col \<notin> set (columns df)) required_cols \<noteq> [] \<and>
     status (main argv read_excel save) = SysExit 1 \<and>
     saved (main argv read_excel save) = None"
proof -
  obtain i out t where p: "parse_args argv = (i, out, t)" by (cases "parse_args argv")
  with assms have r: "read_excel i = Frame df" by simp
  have "set (filter (\<lambda>col. col \<notin> set (columns df)) required_cols) =
      set required_cols - set (columns df)" by auto
  moreover have "filter (\<lambda>col. col \<notin> set (columns df)) required_cols \<noteq> []"
    using assms(2) by (simp only: missing_empty_iff) simp
  ultimately show ?thesis
    by (simp add: main_missing [of argv i out t read_excel df save, OF p r assms(2)] p)
qed

theorem missing_columns_abort_witness:
  "status (main [] (\<lambda>p. Frame short_frame) (\<lambda>p d. Saved)) = SysExit 1 \<and>
   saved (main [] (\<lambda>p. Frame short_frame) (\<lambda>p d. Saved)) = None \<and>
   last (butlast (stdout (main [] (\<lambda>p. Frame short_frame) (\<lambda>p d. Saved)))) =
     [S (ascii ''ERROR: Missing required columns: ''),
      Repr [ascii ''Submission ID'', ascii ''Authors'', ascii ''Abstract'']]"
proof -
  have m: "\<not> set required_cols \<subseteq> set (columns short_frame)"
    by (simp add: short_frame_def required_cols_def ascii_def)
  have f: "filter (\<lambda>col. col \<notin> set (columns short_frame)) required_cols =
      [ascii ''Submission ID'', ascii ''Authors'', ascii ''Abstract'']"
    by (simp add: short_frame_def required_cols_def ascii_def)
  have "(\<lambda>p. Frame short_frame) (fst (parse_args [])) = Frame short_frame" by simp
  from missing_columns_abort [where read_excel = "\<lambda>p. Frame short_frame" and argv = "[]"
      and df = short_frame and save = "\<lambda>p d. Saved", OF this m]
  have "stdout (main [] (\<lambda>p. Frame short_frame) (\<lambda>p d. Saved)) =
       (case parse_args [] of (i, out, t) \<Rightarrow> banner i out t) @
       [[S (ascii ''ERROR: Missing required columns: ''),
         Repr (filter (\<lambda>col. col \<notin> set (columns short_frame)) required_cols)],
        [S (ascii ''Available columns: ''), Repr (columns short_frame)]]"
    and "status (main [] (\<lambda>p. Frame short_frame) (\<lambda>p d. Saved)) = SysExit 1"
    and "saved (main [] (\<lambda>p. Frame short_frame) (\<lambda>p d. Saved)) = None"
    by blast+
  then show ?thesis by (simp add: f butlast_append)
qed

text \<open>
  Claim C7. When no row of the table has the decision \<open>Oral Presentation\<close>, the tool
  reports an error, exits with status 1 and writes no file; when the required columns are
  present, the last line printed is the error that no oral presentations were found.
\<close>
theorem no_oral_rows_abort:
  assumes "read_excel (fst (parse_args argv)) = Frame df"
    and "\<forall>r\<in>set (rows df). r (ascii ''Decision'') \<noteq> PStr (ascii ''Oral Presentation'')"
  shows "status (main argv read_excel save) = SysExit 1 \<and>
     saved (main argv read_excel save) = None \<and>
     reports_error (stdout (main argv read_excel save)) \<and>
     (set required_cols \<subseteq> set (columns df) \<longrightarrow>
        last (stdout (main argv read_excel save)) =
          [S (ascii ''ERROR: No oral presentations found in the data.'')])"
proof -
  obtain i out t where p: "parse_args argv = (i, out, t)" by (cases "parse_args argv")
  with assms have r: "read_excel i = Frame df" by simp
  have e: "filter is_oral (rows df) = []"
    using assms(2) by (simp add: is_oral_eq filter_empty_conv)
  show ?thesis
  proof (cases "set required_cols \<subseteq> set (columns df)")
    case True
    show ?thesis
      by (simp add: main_empty [of argv i out t read_excel df save, OF p r True e] True reports_error_def ascii_def)
  next
    case False
    show ?thesis
      by (simp add: main_missing [of argv i out t read_excel df save, OF p r False] False reports_error_def ascii_def)
  qed
qed

theorem no_oral_rows_abort_witness:
  "status (main [] (\<lambda>p. Frame poster_frame) (\<lambda>p d. Saved)) = SysExit 1 \<and>
   saved (main [] (\<lambda>p. Frame poster_frame) (\<lambda>p d. Saved)) = None \<and>
   last (stdout (main [] (\<lambda>p. Frame poster_frame) (\<lambda>p d. Saved))) =
     [S (ascii ''ERROR: No oral presentations found in the data.'')]"
proof -
  have n: "\<forall>r\<in>set (rows poster_frame).
      r (ascii ''Decision'') \<noteq> PStr (ascii ''Oral Presentation'')"
    by (simp add: poster_frame_def demo_rows_def poster_ne)
  have c: "set required_cols \<subseteq> set (columns poster_frame)" by (simp add: poster_frame_def)
  from no_oral_rows_abort [where read_excel = "\<lambda>p. Frame poster_frame" and argv = "[]"
      and df = poster_frame and save = "\<lambda>p d. Saved", OF _ n] c
  show ?thesis by simp
qed

end
